theory Spec2Isabelle
  imports Complex_Main "HOL-Library.Word" "HOL-Library.Log_Nat"
begin

section \<open>The debounce helper of static/js/script.js\<close>

text \<open>
  \<^verbatim>\<open>
  function debounce(func, delay) {
      let timeoutId;
      return function(...args) {
          clearTimeout(timeoutId);
          timeoutId = setTimeout(() => { func.apply(this, args); }, delay);
      };
  }
  \<close>
  The closure owns one variable, \<open>timeoutId\<close>. The browser's timer queue is made explicit:
  a timer has a handle, the time at which it becomes due and the arguments its callback
  passes to \<open>func\<close>. Time is counted in milliseconds. A timer never runs before it is due;
  how long after that it runs is up to the event loop. Every run of \<open>func\<close> is logged with
  the due time of its timer, which is the earliest time of the run, and its arguments.
  \<open>func\<close> itself is opaque and does not call the wrapper again.
\<close>

record 'a timer =
  timer_id :: nat
  due :: nat
  args :: 'a

record 'a debounce_state =
  timeoutId :: "nat option"
  pending :: "'a timer list"
  next_id :: nat
  invocations :: "(nat \<times> 'a) list"

text \<open>The state right after \<open>debounce(func, delay)\<close> returns: \<open>timeoutId\<close> is undefined.\<close>

definition debounce_init :: "'a debounce_state" where
  "debounce_init = \<lparr>timeoutId = None, pending = [], next_id = 0, invocations = []\<rparr>"

text \<open>\<open>clearTimeout\<close> of undefined, or of a handle that is no longer pending, does nothing.\<close>

definition clearTimeout :: "nat option \<Rightarrow> 'a debounce_state \<Rightarrow> 'a debounce_state" where
  "clearTimeout h s =
     (case h of
        None \<Rightarrow> s
      | Some i \<Rightarrow> s\<lparr>pending := filter (\<lambda>t. timer_id t \<noteq> i) (pending s)\<rparr>)"

definition setTimeout :: "nat \<Rightarrow> nat \<Rightarrow> 'a \<Rightarrow> 'a debounce_state \<Rightarrow> nat \<times> 'a debounce_state" where
  "setTimeout now delay a s =
     (next_id s,
      s\<lparr>pending := pending s @ [\<lparr>timer_id = next_id s, due = now + delay, args = a\<rparr>],
        next_id := Suc (next_id s)\<rparr>)"

text \<open>The wrapper returned by \<open>debounce(func, delay)\<close>, called at time \<open>now\<close> with \<open>a\<close>.\<close>

definition debounce :: "nat \<Rightarrow> nat \<Rightarrow> 'a \<Rightarrow> 'a debounce_state \<Rightarrow> 'a debounce_state" where
  "debounce delay now a s =
     (let s1 = clearTimeout (timeoutId s) s;
          (i, s2) = setTimeout now delay a s1
      in s2\<lparr>timeoutId := Some i\<rparr>)"

text \<open>A timer that runs leaves the queue and calls \<open>func\<close> with its arguments.\<close>

definition fire :: "'a timer \<Rightarrow> 'a debounce_state \<Rightarrow> 'a debounce_state" where
  "fire t s =
     s\<lparr>pending := filter (\<lambda>u. timer_id u \<noteq> timer_id t) (pending s),
       invocations := invocations s @ [(due t, args t)]\<rparr>"

text \<open>The event loop runs the pending timers whose due time satisfies \<open>p\<close>, earliest first.\<close>

definition run_timers :: "(nat \<Rightarrow> bool) \<Rightarrow> 'a debounce_state \<Rightarrow> 'a debounce_state" where
  "run_timers p s = fold fire (sort_key due (filter (\<lambda>t. p (due t)) (pending s))) s"

text \<open>
  A call of the wrapper at time \<open>t\<close>. Which of the timers that are due have run by then is
  up to the event loop, which a busy main thread holds up: \<open>has_run t d\<close> tells whether a timer
  due at \<open>d \<le> t\<close> has run when the call at \<open>t\<close> is made. A timer that is still pending at the
  call, overdue or not, is cancelled by it.
\<close>

definition call_at ::
  "(nat \<Rightarrow> nat \<Rightarrow> bool) \<Rightarrow> nat \<Rightarrow> nat \<Rightarrow> 'a \<Rightarrow> 'a debounce_state \<Rightarrow> 'a debounce_state" where
  "call_at has_run delay t a s = debounce delay t a (run_timers (\<lambda>d. d \<le> t \<and> has_run t d) s)"

text \<open>
  An event loop that runs every timer \<open>k\<close> milliseconds after it is due. With \<open>k = 0\<close> the
  timers are on time, and a timer due at the very time of a call runs before the call.
\<close>

definition late_by :: "nat \<Rightarrow> nat \<Rightarrow> nat \<Rightarrow> bool" where
  "late_by k t d = (d + k \<le> t)"

text \<open>The state once the event loop has run, at time \<open>T\<close>, every timer that is due.\<close>

definition settle :: "nat \<Rightarrow> 'a debounce_state \<Rightarrow> 'a debounce_state" where
  "settle T s = run_timers (\<lambda>d. d \<le> T) s"

fun run_calls :: "(nat \<Rightarrow> nat \<Rightarrow> bool) \<Rightarrow> nat \<Rightarrow> (nat \<times> 'a) list \<Rightarrow> 'a debounce_state \<Rightarrow> 'a debounce_state" where
  "run_calls has_run delay [] s = s"
| "run_calls has_run delay ((t, a) # cs) s = run_calls has_run delay cs (call_at has_run delay t a s)"

text \<open>Consecutive calls strictly less than \<open>delay\<close> apart.\<close>

fun rapid :: "nat \<Rightarrow> (nat \<times> 'a) list \<Rightarrow> bool" where
  "rapid delay [] = True"
| "rapid delay [c] = True"
| "rapid delay (c # d # cs) = (fst c \<le> fst d \<and> fst d < fst c + delay \<and> rapid delay (d # cs))"

text \<open>Consecutive calls strictly more than \<open>delay\<close> apart.\<close>

fun spaced :: "nat \<Rightarrow> (nat \<times> 'a) list \<Rightarrow> bool" where
  "spaced delay [] = True"
| "spaced delay [c] = True"
| "spaced delay (c # d # cs) = (fst c + delay < fst d \<and> spaced delay (d # cs))"

text \<open>The timer set by each call has run when the next call is made.\<close>

fun timers_ran :: "(nat \<Rightarrow> nat \<Rightarrow> bool) \<Rightarrow> nat \<Rightarrow> (nat \<times> 'a) list \<Rightarrow> bool" where
  "timers_ran has_run delay [] = True"
| "timers_ran has_run delay [c] = True"
| "timers_ran has_run delay (c # d # cs) =
     (has_run (fst d) (fst c + delay) \<and> timers_ran has_run delay (d # cs))"

datatype 'a event = Call nat 'a | Elapse nat

fun run_event :: "(nat \<Rightarrow> nat \<Rightarrow> bool) \<Rightarrow> nat \<Rightarrow> 'a event \<Rightarrow> 'a debounce_state \<Rightarrow> 'a debounce_state" where
  "run_event has_run delay (Call t a) s = call_at has_run delay t a s"
| "run_event has_run delay (Elapse T) s = settle T s"

text \<open>One timer pending for the call at \<open>t\<close> with \<open>a\<close>, and \<open>timeoutId\<close> holds its handle.\<close>

definition armed :: "nat \<Rightarrow> nat \<Rightarrow> 'a \<Rightarrow> 'a debounce_state \<Rightarrow> bool" where
  "armed delay t a s =
     (case pending s of
        [u] \<Rightarrow> due u = t + delay \<and> args u = a \<and> timeoutId s = Some (timer_id u)
      | _ \<Rightarrow> False)"

text \<open>At most one timer is pending, and \<open>timeoutId\<close> holds its handle.\<close>

definition tidy :: "'a debounce_state \<Rightarrow> bool" where
  "tidy s =
     (case pending s of
        [] \<Rightarrow> True
      | [u] \<Rightarrow> timeoutId s = Some (timer_id u)
      | _ \<Rightarrow> False)"

section \<open>The contact form of static/js/script.js\<close>

subsection \<open>Strings, trim and the email pattern\<close>

text \<open>
  The value of a form field is a JavaScript string: a sequence of UTF-16 code units.
  \<open>is_space\<close> is the set that \<open>String.prototype.trim\<close> strips and that \<open>\s\<close> matches in a
  regular expression: the WhiteSpace and LineTerminator code points of ECMAScript.
\<close>

type_synonym jsstring = "16 word list"

definition is_space :: "16 word \<Rightarrow> bool" where
  "is_space c =
     (c = 0x09 \<or> c = 0x0A \<or> c = 0x0B \<or> c = 0x0C \<or> c = 0x0D \<or> c = 0x20 \<or> c = 0xA0 \<or>
      c = 0x1680 \<or> (0x2000 \<le> c \<and> c \<le> 0x200A) \<or> c = 0x2028 \<or> c = 0x2029 \<or>
      c = 0x202F \<or> c = 0x205F \<or> c = 0x3000 \<or> c = 0xFEFF)"

definition trim :: "jsstring \<Rightarrow> jsstring" where
  "trim s = rev (dropWhile is_space (rev (dropWhile is_space s)))"

text \<open>
  Regular expressions as far as \<open>/^[^\s@]+@[^\s@]+\.[^\s@]+$/\<close> needs them: character
  classes, sequence and repetition. The pattern is anchored at both ends and has no flags,
  so \<open>test\<close> decides whether the whole string belongs to the language of the pattern; the
  matcher takes derivatives of the pattern, one per code unit.
\<close>

datatype regex =
  RNone
  | REps
  | RClass "16 word \<Rightarrow> bool"
  | RSeq regex regex
  | RAlt regex regex
  | RStar regex

definition RPlus :: "regex \<Rightarrow> regex" where
  "RPlus r = RSeq r (RStar r)"

primrec nullable :: "regex \<Rightarrow> bool" where
  "nullable RNone = False"
| "nullable REps = True"
| "nullable (RClass p) = False"
| "nullable (RSeq r s) = (nullable r \<and> nullable s)"
| "nullable (RAlt r s) = (nullable r \<or> nullable s)"
| "nullable (RStar r) = True"

primrec deriv :: "16 word \<Rightarrow> regex \<Rightarrow> regex" where
  "deriv c RNone = RNone"
| "deriv c REps = RNone"
| "deriv c (RClass p) = (if p c then REps else RNone)"
| "deriv c (RSeq r s) =
     (if nullable r then RAlt (RSeq (deriv c r) s) (deriv c s) else RSeq (deriv c r) s)"
| "deriv c (RAlt r s) = RAlt (deriv c r) (deriv c s)"
| "deriv c (RStar r) = RSeq (deriv c r) (RStar r)"

definition regex_test :: "regex \<Rightarrow> jsstring \<Rightarrow> bool" where
  "regex_test r s = nullable (fold deriv s r)"

text \<open>\<open>[^\s@]\<close>, \<open>@\<close> (code unit 0x40) and \<open>\.\<close> (code unit 0x2E).\<close>

definition not_space_or_at :: "16 word \<Rightarrow> bool" where
  "not_space_or_at c = (\<not> is_space c \<and> c \<noteq> 0x40)"

definition emailPattern :: regex where
  "emailPattern =
     RSeq (RPlus (RClass not_space_or_at))
       (RSeq (RClass (\<lambda>c. c = 0x40))
         (RSeq (RPlus (RClass not_space_or_at))
           (RSeq (RClass (\<lambda>c. c = 0x2E))
             (RPlus (RClass not_space_or_at)))))"

text \<open>
  The language of a pattern, to state what the matcher decides, and the words of the email
  pattern: three parts without white space and without \<open>@\<close>, none of them empty, with \<open>@\<close>
  after the first and a dot after the second.
\<close>

inductive_set star :: "jsstring set \<Rightarrow> jsstring set" for A :: "jsstring set" where
  star_empty: "[] \<in> star A"
| star_step: "u \<in> A \<Longrightarrow> v \<in> star A \<Longrightarrow> u @ v \<in> star A"

primrec lang :: "regex \<Rightarrow> jsstring set" where
  "lang RNone = {}"
| "lang REps = {[]}"
| "lang (RClass p) = {[c] | c. p c}"
| "lang (RSeq r s) = {u @ v | u v. u \<in> lang r \<and> v \<in> lang s}"
| "lang (RAlt r s) = lang r \<union> lang s"
| "lang (RStar r) = star (lang r)"

definition email_part :: "jsstring \<Rightarrow> bool" where
  "email_part w = (w \<noteq> [] \<and> (\<forall>x\<in>set w. \<not> is_space x \<and> x \<noteq> 0x40))"

definition email_shape :: "jsstring \<Rightarrow> bool" where
  "email_shape s =
     (\<exists>a b c. s = a @ [0x40] @ b @ [0x2E] @ c \<and> email_part a \<and> email_part b \<and> email_part c)"

subsection \<open>The page\<close>

text \<open>
  The document is the list of its elements in document order. What a selector of the
  script matches is a field of the element; the script never changes attributes or the
  tree, so these fields are fixed:
  \<^item> \<open>in_form\<close>: the element is a descendant of the element returned by
    \<open>document.getElementById('contactForm')\<close>;
  \<^item> \<open>required\<close>: it matches \<open>[required]\<close>;
  \<^item> \<open>email_input\<close>: it matches \<open>input[type="email"]\<close>;
  \<^item> \<open>submit_button\<close>: it matches \<open>button[type="submit"]\<close>.
  \<open>control\<close> tells that the element is a form control (\<open>input\<close>, \<open>select\<close>, \<open>textarea\<close>,
  \<open>button\<close>). The property \<open>value\<close> of a control is a string, the field \<open>value\<close>; on any other
  element (a \<open>div\<close>, say) the property is undefined and the field is not read. The
  attribute \<open>required\<close> belongs to controls, and an \<open>input\<close> is one, so an element that
  matches \<open>[required]\<close> or \<open>input[type="email"]\<close> has a string value whatever \<open>control\<close>
  says: these are the elements whose value \<open>validateForm\<close> reads. \<open>defaultValue\<close> is the
  value that \<open>form.reset()\<close> restores, \<open>display\<close> is \<open>style.display\<close>.
\<close>

record element =
  elem_id :: string
  in_form :: bool
  required :: bool
  email_input :: bool
  submit_button :: bool
  control :: bool
  "value" :: jsstring
  defaultValue :: jsstring
  classList :: "string list"
  innerHTML :: string
  disabled :: bool
  display :: string

definition has_value :: "element \<Rightarrow> bool" where
  "has_value e = (control e \<or> required e \<or> email_input e)"

datatype error = TypeError | SyntaxError | ReferenceError

text \<open>\<open>querySelectorAll\<close>, \<open>querySelector\<close> and \<open>getElementById\<close>, by index.\<close>

definition querySelectorAll :: "(element \<Rightarrow> bool) \<Rightarrow> element list \<Rightarrow> nat list" where
  "querySelectorAll sel es = filter (\<lambda>i. sel (es ! i)) [0..<length es]"

definition querySelector :: "(element \<Rightarrow> bool) \<Rightarrow> element list \<Rightarrow> nat option" where
  "querySelector sel es = (case querySelectorAll sel es of [] \<Rightarrow> None | i # _ \<Rightarrow> Some i)"

definition getElementById :: "string \<Rightarrow> element list \<Rightarrow> nat option" where
  "getElementById x es = querySelector (\<lambda>e. elem_id e = x) es"

text \<open>\<open>classList.add\<close> and \<open>classList.remove\<close>: the list of classes has no duplicates.\<close>

definition classList_add :: "string \<Rightarrow> element \<Rightarrow> element" where
  "classList_add c e =
     (if c \<in> set (classList e) then e else e\<lparr>classList := classList e @ [c]\<rparr>)"

definition classList_remove :: "string \<Rightarrow> element \<Rightarrow> element" where
  "classList_remove c e = e\<lparr>classList := removeAll c (classList e)\<rparr>"

subsection \<open>validateForm\<close>

text \<open>
  \<^verbatim>\<open>
  requiredFields.forEach(field => {
      if (!field.value.trim()) { isValid = false; field.classList.add('is-invalid'); }
      else { field.classList.remove('is-invalid'); }
  });
  \<close>
  One round of the loop, on the field at index \<open>i\<close>; the state is \<open>isValid\<close> and the
  document. The empty string is the only string that is falsy.
\<close>

definition check_required :: "nat \<Rightarrow> bool \<times> element list \<Rightarrow> bool \<times> element list" where
  "check_required i st =
     (case st of (isValid, es) \<Rightarrow>
        if trim (value (es ! i)) = []
        then (False, es[i := classList_add ''is-invalid'' (es ! i)])
        else (isValid, es[i := classList_remove ''is-invalid'' (es ! i)]))"

definition validateForm :: "element list \<Rightarrow> bool \<times> element list" where
  "validateForm es0 =
     (let requiredFields = querySelectorAll (\<lambda>e. in_form e \<and> required e) es0;
          (isValid, es) = fold check_required requiredFields (True, es0)
      in case querySelector (\<lambda>e. in_form e \<and> email_input e) es of
           None \<Rightarrow> (isValid, es)
         | Some j \<Rightarrow>
             if trim (value (es ! j)) \<noteq> []
             then (if \<not> regex_test emailPattern (trim (value (es ! j)))
                   then (False, es[j := classList_add ''is-invalid'' (es ! j)])
                   else (isValid, es))
             else (isValid, es))"

subsection \<open>The submit handler\<close>

text \<open>
  The object that the handler sends. \<open>inquiry\<close> is read without \<open>trim\<close>, so it is whatever
  the property \<open>value\<close> of the element is: a string, or undefined (\<open>None\<close>).
\<close>

record formData =
  name :: jsstring
  email :: jsstring
  phone :: jsstring
  inquiry :: "jsstring option"
  message :: jsstring

text \<open>
  What a run of the handler does besides changing the document, in order:
  \<open>event.preventDefault()\<close>, the call \<open>emailjs.send('default_service', 'contact_form',
  formData)\<close>, \<open>console.error\<close>, \<open>scrollIntoView\<close> on the element at an index, and the timer
  that hides that element after a number of milliseconds.
\<close>

datatype effect =
  PreventDefault
  | Send formData
  | ConsoleError
  | ScrollIntoView nat
  | HideAfter nat nat

record outcome =
  effects :: "effect list"
  dom :: "element list"
  thrown :: "error option"

definition loading_html :: string where
  \<open>loading_html = ''<i class="fas fa-spinner fa-spin me-2"></i>Sending...''\<close>

definition success_message :: string where
  "success_message = ''Your message has been sent successfully! We will get back to you soon.''"

definition failure_message :: string where
  "failure_message =
     ''Sorry, there was an error sending your message. Please try again later.''"

text \<open>\<open>originalText\<close> defaults to null, which \<open>innerHTML\<close> turns into the empty string.\<close>

definition setButtonLoading :: "nat \<Rightarrow> bool \<Rightarrow> string option \<Rightarrow> element list \<Rightarrow> element list" where
  "setButtonLoading button isLoading originalText es =
     (if isLoading
      then es[button := (es ! button)\<lparr>innerHTML := loading_html, disabled := True\<rparr>]
      else es[button := (es ! button)
             \<lparr>innerHTML := (case originalText of None \<Rightarrow> [] | Some t \<Rightarrow> t),
              disabled := False\<rparr>])"

definition response_html :: "bool \<Rightarrow> string \<Rightarrow> string" where
  \<open>response_html success msg =
     (let icon = (if success then ''check-circle'' else ''exclamation-circle'');
          alertClass = (if success then ''alert-success'' else ''alert-danger'')
      in ''<div class="alert '' @ alertClass @ ''"><i class="fas fa-'' @ icon @ '' me-2"></i>''
           @ msg @ ''</div>'')\<close>

definition showFormResponse :: "bool \<Rightarrow> string \<Rightarrow> element list \<Rightarrow> element list" where
  "showFormResponse success msg es =
     (case getElementById ''formResponse'' es of
        None \<Rightarrow> es
      | Some r \<Rightarrow> es[r := (es ! r)\<lparr>innerHTML := response_html success msg,
                                   display := ''block''\<rparr>])"

text \<open>\<open>contactForm.reset()\<close> gives every control of the form its default value back.\<close>

definition form_reset :: "element list \<Rightarrow> element list" where
  "form_reset es = map (\<lambda>e. if in_form e then e\<lparr>value := defaultValue e\<rparr> else e) es"

text \<open>The property \<open>value\<close> of an element: undefined (\<open>None\<close>) unless it is a control.\<close>

definition value_prop :: "element \<Rightarrow> jsstring option" where
  "value_prop e = (if has_value e then Some (value e) else None)"

text \<open>\<open>document.getElementById(x).value\<close>: a TypeError when no element has the id.\<close>

definition value_of_id :: "string \<Rightarrow> element list \<Rightarrow> error + jsstring option" where
  "value_of_id x es =
     (case getElementById x es of
        None \<Rightarrow> Inl TypeError
      | Some i \<Rightarrow> Inr (value_prop (es ! i)))"

text \<open>
  \<open>document.getElementById(x).value.trim()\<close>: a TypeError also when the element with the
  id has no string value.
\<close>

definition trimmed_value_of_id :: "string \<Rightarrow> element list \<Rightarrow> error + jsstring" where
  "trimmed_value_of_id x es =
     (case value_of_id x es of
        Inl e \<Rightarrow> Inl e
      | Inr None \<Rightarrow> Inl TypeError
      | Inr (Some v) \<Rightarrow> Inr (trim v))"

definition collect_formData :: "element list \<Rightarrow> error + formData" where
  "collect_formData es =
     (case trimmed_value_of_id ''name'' es of Inl e \<Rightarrow> Inl e | Inr n \<Rightarrow>
      case trimmed_value_of_id ''email'' es of Inl e \<Rightarrow> Inl e | Inr m \<Rightarrow>
      case trimmed_value_of_id ''phone'' es of Inl e \<Rightarrow> Inl e | Inr p \<Rightarrow>
      case value_of_id ''inquiry'' es of Inl e \<Rightarrow> Inl e | Inr q \<Rightarrow>
      case trimmed_value_of_id ''message'' es of Inl e \<Rightarrow> Inl e | Inr t \<Rightarrow>
        Inr \<lparr>name = n, email = m, phone = p, inquiry = q, message = t\<rparr>)"

text \<open>
  What happens at \<open>await emailjs.send(...)\<close>: the call is made and its promise resolves;
  the call is made and its promise rejects; or \<open>emailjs\<close> is not defined (the library did
  not load) and evaluating \<open>emailjs.send\<close> throws inside the \<open>try\<close> block, before any call.
  In the last two cases the \<open>catch\<close> clause runs.
\<close>

datatype mail_service = Resolves | Rejects | Unavailable

text \<open>
  The listener that \<open>initContactForm\<close> registers for \<open>submit\<close>, run on the document \<open>es\<close>
  with the mail service \<open>service\<close>. A TypeError (a missing submit button, a missing field or
  a field without a string value) leaves the handler, before the \<open>try\<close> block, with the
  document as it is at that point.
\<close>

definition submit_handler :: "mail_service \<Rightarrow> element list \<Rightarrow> outcome" where
  "submit_handler service es0 =
     (let (valid, es1) = validateForm es0 in
      if \<not> valid then \<lparr>effects = [PreventDefault], dom = es1, thrown = None\<rparr>
      else
        case querySelector (\<lambda>e. in_form e \<and> submit_button e) es1 of
          None \<Rightarrow> \<lparr>effects = [PreventDefault], dom = es1, thrown = Some TypeError\<rparr>
        | Some submitButton \<Rightarrow>
            let originalButtonText = innerHTML (es1 ! submitButton);
                es2 = setButtonLoading submitButton True None es1
            in case collect_formData es2 of
                 Inl e \<Rightarrow> \<lparr>effects = [PreventDefault], dom = es2, thrown = Some e\<rparr>
               | Inr fd \<Rightarrow>
                   let es3 = (if service = Resolves
                              then form_reset (showFormResponse True success_message es2)
                              else showFormResponse False failure_message es2);
                       es4 = setButtonLoading submitButton False (Some originalButtonText) es3
                   in \<lparr>effects = [PreventDefault]
                          @ (case service of
                               Resolves \<Rightarrow> [Send fd]
                             | Rejects \<Rightarrow> [Send fd, ConsoleError]
                             | Unavailable \<Rightarrow> [ConsoleError])
                          @ (case getElementById ''formResponse'' es4 of
                               None \<Rightarrow> []
                             | Some r \<Rightarrow> [ScrollIntoView r, HideAfter r 5000]),
                       dom = es4, thrown = None\<rparr>)"

text \<open>
  \<open>initContactForm\<close> registers the listener only when the document has an element with id
  \<open>contactForm\<close>; without it a submission runs nothing of this script.
\<close>

definition initContactForm :: "element list \<Rightarrow> bool" where
  "initContactForm es = (getElementById ''contactForm'' es \<noteq> None)"

definition on_submit :: "mail_service \<Rightarrow> element list \<Rightarrow> outcome" where
  "on_submit service es =
     (if initContactForm es then submit_handler service es
      else \<lparr>effects = [], dom = es, thrown = None\<rparr>)"

text \<open>
  What the loop of \<open>validateForm\<close> does to one required field, and the fields of an
  element that no function of the script writes.
\<close>

definition mark_required :: "element \<Rightarrow> element" where
  "mark_required e =
     (if trim (value e) = [] then classList_add ''is-invalid'' e
      else classList_remove ''is-invalid'' e)"

definition static :: "element \<Rightarrow> string \<times> bool \<times> bool \<times> bool \<times> bool \<times> bool" where
  "static e = (elem_id e, in_form e, required e, email_input e, submit_button e, control e)"

text \<open>The document after the loop of \<open>validateForm\<close>: every required field is marked.\<close>

definition marked :: "element list \<Rightarrow> element list" where
  "marked es =
     map (\<lambda>j. if in_form (es ! j) \<and> required (es ! j) then mark_required (es ! j) else es ! j)
       [0..<length es]"

text \<open>
  The words of the claims about \<open>validateForm\<close>: the email field of the form (the first
  \<open>input[type="email"]\<close>), every required field has a value that is not empty once
  trimmed, and the field at \<open>j\<close> is the email field with a value that is not empty once
  trimmed and does not match the pattern.
\<close>

definition emailField :: "element list \<Rightarrow> nat option" where
  "emailField es = querySelector (\<lambda>e. in_form e \<and> email_input e) es"

definition all_required_filled :: "element list \<Rightarrow> bool" where
  "all_required_filled es =
     list_all (\<lambda>e. in_form e \<and> required e \<longrightarrow> trim (value e) \<noteq> []) es"

definition bad_email :: "element list \<Rightarrow> nat \<Rightarrow> bool" where
  "bad_email es j =
     (emailField es = Some j \<and> trim (value (es ! j)) \<noteq> [] \<and>
      \<not> regex_test emailPattern (trim (value (es ! j))))"

text \<open>The \<open>Send\<close> effects of a run.\<close>

fun sends :: "effect list \<Rightarrow> formData list" where
  "sends [] = []"
| "sends (Send d # fx) = d # sends fx"
| "sends (_ # fx) = sends fx"

text \<open>An ASCII string as code units.\<close>

definition js :: "string \<Rightarrow> jsstring" where
  "js s = map (\<lambda>c. of_nat (of_char c)) s"

text \<open>The document has an element with id \<open>x\<close>, and the first one has a string value.\<close>

definition control_with_id :: "string \<Rightarrow> element list \<Rightarrow> bool" where
  "control_with_id x es =
     (case getElementById x es of None \<Rightarrow> False | Some i \<Rightarrow> has_value (es ! i))"

text \<open>A control of the form without classes: id, required, email input, value.\<close>

definition form_field :: "string \<Rightarrow> bool \<Rightarrow> bool \<Rightarrow> jsstring \<Rightarrow> element" where
  "form_field i req em v =
     \<lparr>elem_id = i, in_form = True, required = req, email_input = em, submit_button = False,
      control = True, value = v, defaultValue = [], classList = [], innerHTML = [],
      disabled = False, display = []\<rparr>"

definition submit_button_element :: element where
  "submit_button_element =
     \<lparr>elem_id = [], in_form = True, required = False, email_input = False,
      submit_button = True, control = True, value = [], defaultValue = [], classList = [],
      innerHTML = ''Send'', disabled = False, display = []\<rparr>"

text \<open>An element of the form that is not a control, such as \<open><div id="phone">\<close>.\<close>

definition plain_element :: "string \<Rightarrow> element" where
  "plain_element i =
     \<lparr>elem_id = i, in_form = True, required = False, email_input = False,
      submit_button = False, control = False, value = [], defaultValue = [], classList = [],
      innerHTML = [], disabled = False, display = []\<rparr>"

definition response_container :: element where
  "response_container =
     \<lparr>elem_id = ''formResponse'', in_form = False, required = False, email_input = False,
      submit_button = False, control = False, value = [], defaultValue = [], classList = [],
      innerHTML = [], disabled = False, display = ''none''\<rparr>"

text \<open>
  A page with the five fields that the handler reads, a submit button and the response
  container.
\<close>

definition contact_page :: "element list" where
  "contact_page =
     [form_field ''name'' True False (js ''Ann''),
      form_field ''email'' True True (js ''ann@example.org''),
      form_field ''phone'' False False [],
      form_field ''inquiry'' False False (js ''general''),
      form_field ''message'' True False (js '' Hello ''),
      submit_button_element,
      response_container]"

subsection \<open>Initialisation at DOMContentLoaded\<close>

text \<open>
  What the initialisation functions of \<open>static/js/script.js\<close> find when the page has
  loaded: the document (for the contact form), the number of elements that a
  \<open>querySelectorAll\<close> returns, whether a \<open>querySelector\<close> or \<open>getElementById\<close> finds its
  element, which libraries are defined, and whether the constructor of the carousel
  throws.
\<close>

record loaded_page =
  document :: "element list"
  counter_count :: nat
  anchor_count :: nat
  backToTop_found :: bool
  header_found :: bool
  navbarToggler_found :: bool
  navbarNav_found :: bool
  animated_count :: nat
  testimonialCarousel_found :: bool
  dropdown_count :: nat
  AOS_defined :: bool
  emailjs_defined :: bool
  lightbox_defined :: bool
  bootstrap_defined :: bool
  carousel_throws :: bool

datatype init_step =
  AOS_init
  | EmailJS_init
  | EmailJS_init_failed
  | ContactForm_listener
  | Counters_observed nat
  | Lightbox_options
  | Anchor_listeners nat
  | BackToTop_listeners
  | StickyHeader_listener
  | MobileMenu_listeners
  | Animations_observed nat
  | Carousel_created
  | Carousel_failed
  | Dropdown_listeners nat

text \<open>\<open>initEmailJS\<close> and \<open>initTestimonialCarousel\<close> catch the exception and log it.\<close>

definition initEmailJS :: "loaded_page \<Rightarrow> init_step list" where
  "initEmailJS q = (if emailjs_defined q then [EmailJS_init] else [EmailJS_init_failed])"

definition initCounters :: "loaded_page \<Rightarrow> init_step list" where
  "initCounters q = (if counter_count q = 0 then [] else [Counters_observed (counter_count q)])"

definition initLightbox :: "loaded_page \<Rightarrow> init_step list" where
  "initLightbox q = (if \<not> lightbox_defined q then [] else [Lightbox_options])"

definition initSmoothScrolling :: "loaded_page \<Rightarrow> init_step list" where
  "initSmoothScrolling q = [Anchor_listeners (anchor_count q)]"

definition initBackToTop :: "loaded_page \<Rightarrow> init_step list" where
  "initBackToTop q = (if \<not> backToTop_found q then [] else [BackToTop_listeners])"

definition initStickyHeader :: "loaded_page \<Rightarrow> init_step list" where
  "initStickyHeader q = (if \<not> header_found q then [] else [StickyHeader_listener])"

definition initMobileMenu :: "loaded_page \<Rightarrow> init_step list" where
  "initMobileMenu q =
     (if \<not> navbarToggler_found q \<or> \<not> navbarNav_found q then [] else [MobileMenu_listeners])"

definition initAnimations :: "loaded_page \<Rightarrow> init_step list" where
  "initAnimations q =
     (if animated_count q = 0 then [] else [Animations_observed (animated_count q)])"

definition initTestimonialCarousel :: "loaded_page \<Rightarrow> init_step list" where
  "initTestimonialCarousel q =
     (if \<not> testimonialCarousel_found q \<or> \<not> bootstrap_defined q then []
      else if carousel_throws q then [Carousel_failed] else [Carousel_created])"

definition initHoverDropdowns :: "loaded_page \<Rightarrow> init_step list" where
  "initHoverDropdowns q =
     (if dropdown_count q = 0 then [] else [Dropdown_listeners (dropdown_count q)])"

text \<open>
  The listener for \<open>DOMContentLoaded\<close>. \<open>AOS.init\<close> is called first and without a test:
  when the library is not defined, the ReferenceError ends the listener.
\<close>

definition DOMContentLoaded :: "loaded_page \<Rightarrow> init_step list \<times> error option" where
  "DOMContentLoaded q =
     (if \<not> AOS_defined q then ([], Some ReferenceError)
      else
        ([AOS_init] @ initEmailJS q
           @ (if initContactForm (document q) then [ContactForm_listener] else [])
           @ initCounters q @ initLightbox q @ initSmoothScrolling q @ initBackToTop q
           @ initStickyHeader q @ initMobileMenu q @ initAnimations q
           @ initTestimonialCarousel q @ initHoverDropdowns q,
         None))"

text \<open>A page without any of the elements that the script looks for.\<close>

definition empty_page :: loaded_page where
  "empty_page =
     \<lparr>document = [], counter_count = 0, anchor_count = 0, backToTop_found = False,
      header_found = False, navbarToggler_found = False, navbarNav_found = False,
      animated_count = 0, testimonialCarousel_found = False, dropdown_count = 0,
      AOS_defined = True, emailjs_defined = True, lightbox_defined = True,
      bootstrap_defined = True, carousel_throws = False\<rparr>"

section \<open>The counters of static/js/script.js\<close>

subsection \<open>Numbers\<close>

text \<open>
  A JavaScript number is NaN, an infinity or a finite value; the finite values are
  rationals, and the two zeros are one value (\<open><\<close>, \<open>+\<close>, \<open>Math.ceil\<close> and the text of a
  number do not tell them apart, and the script divides by 200 only). An arithmetic
  operation on finite values computes the exact result and rounds it: \<open>rnd\<close> is the rounding
  of the machine, from the exact result to the number that stores it, which is an infinity
  on overflow.
\<close>

datatype jsnum = NaN | NegInf | Num rat | PosInf

fun js_lt :: "jsnum \<Rightarrow> jsnum \<Rightarrow> bool" where
  "js_lt (Num a) (Num b) = (a < b)"
| "js_lt NegInf (Num b) = True"
| "js_lt NegInf PosInf = True"
| "js_lt (Num a) PosInf = True"
| "js_lt _ _ = False"

fun js_add :: "(rat \<Rightarrow> jsnum) \<Rightarrow> jsnum \<Rightarrow> jsnum \<Rightarrow> jsnum" where
  "js_add rnd (Num a) (Num b) = rnd (a + b)"
| "js_add rnd NaN _ = NaN"
| "js_add rnd _ NaN = NaN"
| "js_add rnd PosInf NegInf = NaN"
| "js_add rnd NegInf PosInf = NaN"
| "js_add rnd PosInf _ = PosInf"
| "js_add rnd _ PosInf = PosInf"
| "js_add rnd NegInf _ = NegInf"
| "js_add rnd _ NegInf = NegInf"

fun js_div :: "(rat \<Rightarrow> jsnum) \<Rightarrow> jsnum \<Rightarrow> jsnum \<Rightarrow> jsnum" where
  "js_div rnd (Num a) (Num b) =
     (if b = 0 then (if a = 0 then NaN else if 0 < a then PosInf else NegInf)
      else rnd (a / b))"
| "js_div rnd NaN _ = NaN"
| "js_div rnd _ NaN = NaN"
| "js_div rnd (Num a) _ = Num 0"
| "js_div rnd PosInf (Num b) = (if b < 0 then NegInf else PosInf)"
| "js_div rnd NegInf (Num b) = (if b < 0 then PosInf else NegInf)"
| "js_div rnd _ _ = NaN"

fun js_ceil :: "jsnum \<Rightarrow> jsnum" where
  "js_ceil (Num a) = Num (of_int \<lceil>a\<rceil>)"
| "js_ceil x = x"

subsection \<open>parseInt\<close>

text \<open>
  \<open>parseInt(string)\<close> without a radix: leading white space is skipped, a sign is read, the
  prefix \<open>0x\<close> or \<open>0X\<close> selects radix 16 (radix 10 otherwise), and the longest run of
  digits is the integer; without a digit the result is NaN. The integer is stored as a
  number, hence rounded.
\<close>

definition digit_value :: "16 word \<Rightarrow> nat option" where
  "digit_value c =
     (if 0x30 \<le> c \<and> c \<le> 0x39 then Some (unat c - 0x30)
      else if 0x61 \<le> c \<and> c \<le> 0x7A then Some (unat c - 0x61 + 10)
      else if 0x41 \<le> c \<and> c \<le> 0x5A then Some (unat c - 0x41 + 10)
      else None)"

definition is_digit :: "nat \<Rightarrow> 16 word \<Rightarrow> bool" where
  "is_digit radix c = (case digit_value c of None \<Rightarrow> False | Some d \<Rightarrow> d < radix)"

definition digits_value :: "nat \<Rightarrow> jsstring \<Rightarrow> nat" where
  "digits_value radix z = foldl (\<lambda>acc c. acc * radix + the (digit_value c)) 0 z"

definition parseInt :: "(rat \<Rightarrow> jsnum) \<Rightarrow> jsstring \<Rightarrow> jsnum" where
  "parseInt rnd string =
     (let s = dropWhile is_space string;
          (sign, s) = (case s of
                         c # cs \<Rightarrow> if c = 0x2D then (- 1, cs)
                                   else if c = 0x2B then (1, cs) else (1 :: int, s)
                       | [] \<Rightarrow> (1, s));
          (radix, s) = (case s of
                          c # d # cs \<Rightarrow> if c = 0x30 \<and> (d = 0x78 \<or> d = 0x58) then (16, cs)
                                        else (10 :: nat, s)
                        | _ \<Rightarrow> (10, s));
          z = takeWhile (is_digit radix) s
      in if z = [] then NaN else rnd (of_int (sign * int (digits_value radix z))))"

subsection \<open>animateCounter\<close>

text \<open>
  \<^verbatim>\<open>
  function animateCounter(counter, target, speed) {
      let count = 0;
      const increment = target / speed;
      const updateCount = () => {
          if (count < target) {
              count += increment;
              counter.innerText = Math.ceil(count);
              requestAnimationFrame(updateCount);
          } else {
              counter.innerText = target;
          }
      };
      requestAnimationFrame(updateCount);
  }
  \<close>
  The state of the animation is \<open>count\<close>, the number that the counter shows and the number
  of frames that have run. \<open>updateCount\<close> runs once per animation frame; the animation ends
  with the frame that does not request another one. An animation that never ends has no
  result.
\<close>

record counter_state =
  count :: jsnum
  innerText :: jsnum
  frames :: nat

partial_function (option)
  updateCount :: "(rat \<Rightarrow> jsnum) \<Rightarrow> jsnum \<Rightarrow> jsnum \<Rightarrow> counter_state \<Rightarrow> counter_state option"
where
  "updateCount rnd target increment st =
     (if js_lt (count st) target
      then updateCount rnd target increment
             \<lparr>count = js_add rnd (count st) increment,
              innerText = js_ceil (js_add rnd (count st) increment),
              frames = Suc (frames st)\<rparr>
      else Some (st\<lparr>innerText := target, frames := Suc (frames st)\<rparr>))"

declare updateCount.simps [code]

text \<open>\<open>shown\<close> is what the counter shows before the animation starts.\<close>

definition animateCounter :: "(rat \<Rightarrow> jsnum) \<Rightarrow> jsnum \<Rightarrow> jsnum \<Rightarrow> jsnum \<Rightarrow> counter_state option" where
  "animateCounter rnd shown target speed =
     updateCount rnd target (js_div rnd target speed)
       \<lparr>count = Num 0, innerText = shown, frames = 0\<rparr>"

text \<open>
  The callback of the observer in \<open>initCounters\<close>, for a counter that comes into view:
  \<^verbatim>\<open>
  const target = parseInt(counter.getAttribute('data-count') || '0');
  animateCounter(counter, target, speed);
  \<close>
  with \<open>speed = 200\<close>. \<open>data_count\<close> is the attribute, \<open>None\<close> when the element has none; null
  and the empty string are falsy.
\<close>

definition counter_target :: "(rat \<Rightarrow> jsnum) \<Rightarrow> jsstring option \<Rightarrow> jsnum" where
  "counter_target rnd data_count =
     parseInt rnd (case data_count of
                     None \<Rightarrow> js ''0''
                   | Some s \<Rightarrow> if s = [] then js ''0'' else s)"

definition counter_in_view :: "(rat \<Rightarrow> jsnum) \<Rightarrow> jsnum \<Rightarrow> jsstring option \<Rightarrow> counter_state option" where
  "counter_in_view rnd shown data_count =
     animateCounter rnd shown (counter_target rnd data_count) (Num 200)"

text \<open>
  The standard model of rounding with unit roundoff \<open>u\<close>: from 1/400 upwards the relative
  error of a rounded value is at most \<open>u\<close>, unless the value overflows; a value that is not
  positive is not rounded to a positive one.
\<close>

definition standard_model :: "rat \<Rightarrow> (rat \<Rightarrow> jsnum) \<Rightarrow> bool" where
  "standard_model u rnd =
     ((\<forall>x. 1 / 400 \<le> x \<longrightarrow> rnd x = PosInf \<or> (\<exists>y. rnd x = Num y \<and> \<bar>y - x\<bar> \<le> u * x)) \<and>
      (\<forall>x. x \<le> 0 \<longrightarrow> rnd x = NegInf \<or> (\<exists>y. rnd x = Num y \<and> y \<le> 0)))"

subsection \<open>Double precision\<close>

text \<open>
  The rounding of IEEE 754 binary64, the number format of JavaScript: 53 significant
  bits, round to nearest with ties to even, gradual underflow below \<open>2\<^sup>-\<^sup>1\<^sup>0\<^sup>2\<^sup>2\<close> and an
  infinity from \<open>2\<^sup>1\<^sup>0\<^sup>2\<^sup>4\<close> on. \<open>ilog2 x\<close> is the exponent of a positive \<open>x\<close>: the
  integer \<open>e\<close> with \<open>2\<^sup>e \<le> x < 2\<^sup>e\<^sup>+\<^sup>1\<close>.
\<close>

definition ilog2 :: "rat \<Rightarrow> int" where
  "ilog2 x =
     (let (p, q) = quotient_of x; d = bitlen p - bitlen q
      in if 2 powi d \<le> x then d else d - 1)"

definition round_half_even :: "rat \<Rightarrow> int" where
  "round_half_even z =
     (let f = \<lfloor>z\<rfloor>; r = z - of_int f
      in if r < 1 / 2 then f else if 1 / 2 < r then f + 1 else if even f then f else f + 1)"

text \<open>The rounding of a positive value; \<open>None\<close> is overflow.\<close>

definition round_positive :: "rat \<Rightarrow> rat option" where
  "round_positive x =
     (let e = max (ilog2 x) (- 1022);
          ulp = 2 powi (e - 52);
          y = of_int (round_half_even (x / ulp)) * ulp
      in if 2 powi 1024 \<le> y then None else Some y)"

definition round_double :: "rat \<Rightarrow> jsnum" where
  "round_double x =
     (if x = 0 then Num 0
      else if 0 < x then (case round_positive x of None \<Rightarrow> PosInf | Some y \<Rightarrow> Num y)
      else (case round_positive (- x) of None \<Rightarrow> NegInf | Some y \<Rightarrow> Num (- y)))"

section \<open>The site script script.js\<close>

subsection \<open>The page\<close>

text \<open>
  An element of the page as \<open>script.js\<close> uses it: the \<open>href\<close> attribute, the list of
  classes, whether it matches \<open>.nav-links a\<close>, and \<open>offsetTop\<close>. The page records what the
  queries at the top of the script return, as indices into the list of elements (\<open>None\<close>
  is null), and the \<open>top\<close> of every call of \<open>window.scrollTo\<close>.
\<close>

record node =
  href :: string
  classes :: "string list"
  nav_link :: bool
  offsetTop :: int

record site =
  nodes :: "node list"
  menuToggle :: "nat option"
  navLinks :: "nat option"
  anchors :: "nat list"
  galleryItems :: "nat list"
  modal :: "nat option"
  modalImg :: "nat option"
  closeModal :: "nat option"
  contactForm :: "nat option"
  scrolls :: "int list"

definition classes_add :: "string \<Rightarrow> node \<Rightarrow> node" where
  "classes_add c e = (if c \<in> set (classes e) then e else e\<lparr>classes := classes e @ [c]\<rparr>)"

definition classes_remove :: "string \<Rightarrow> node \<Rightarrow> node" where
  "classes_remove c e = e\<lparr>classes := removeAll c (classes e)\<rparr>"

subsection \<open>The script at load time\<close>

text \<open>
  The statements at the top level of \<open>script.js\<close> register listeners, in this order.
  \<open>menuToggle.addEventListener\<close> and \<open>closeModal.addEventListener\<close> are called on the
  result of a query without a test; the contact form is tested first. An exception at the
  top level ends the script: the listeners registered so far stay, the rest is not run.
\<close>

datatype listener =
  MenuToggleClick
  | AnchorClick nat
  | GalleryItemClick nat
  | CloseModalClick
  | WindowClick
  | ContactFormSubmit
  | WindowScroll

definition script_js :: "site \<Rightarrow> listener list \<times> error option" where
  "script_js p =
     (case menuToggle p of
        None \<Rightarrow> ([], Some TypeError)
      | Some m \<Rightarrow>
          let registered = [MenuToggleClick] @ map AnchorClick (anchors p)
                             @ map GalleryItemClick (galleryItems p)
          in case closeModal p of
               None \<Rightarrow> (registered, Some TypeError)
             | Some c \<Rightarrow>
                 (registered @ [CloseModalClick, WindowClick]
                    @ (if contactForm p \<noteq> None then [ContactFormSubmit] else [])
                    @ [WindowScroll],
                  None))"

subsection \<open>The click handler of the anchors\<close>

text \<open>
  \<^verbatim>\<open>
  anchor.addEventListener('click', function(e) {
      e.preventDefault();
      if (navLinks.classList.contains('show')) { navLinks.classList.remove('show'); }
      const targetId = this.getAttribute('href');
      if (targetId === '#') return;
      const targetElement = document.querySelector(targetId);
      if (targetElement) {
          window.scrollTo({ top: targetElement.offsetTop - 90, behavior: 'smooth' });
          document.querySelectorAll('.nav-links a').forEach(link => {
              link.classList.remove('active');
          });
          this.classList.add('active');
      }
  });
  \<close>
  \<open>select\<close> is \<open>document.querySelector\<close> of the browser on this page: a SyntaxError for a
  string that is not a selector, null, or the index of the first match. \<open>this\<close> is the
  index of the anchor that was clicked. The result is the page after the handler, whether
  the default action of the event has been prevented, and the exception that ended the
  handler, if any.
\<close>

record click_outcome =
  page :: site
  defaultPrevented :: bool
  raised :: "error option"

definition anchor_click :: "(string \<Rightarrow> error + nat option) \<Rightarrow> nat \<Rightarrow> site \<Rightarrow> click_outcome" where
  "anchor_click select this p0 =
     (case navLinks p0 of
        None \<Rightarrow> \<lparr>page = p0, defaultPrevented = True, raised = Some TypeError\<rparr>
      | Some n \<Rightarrow>
          let p1 = (if ''show'' \<in> set (classes (nodes p0 ! n))
                    then p0\<lparr>nodes := (nodes p0)[n := classes_remove ''show'' (nodes p0 ! n)]\<rparr>
                    else p0);
              targetId = href (nodes p1 ! this)
          in if targetId = ''#''
             then \<lparr>page = p1, defaultPrevented = True, raised = None\<rparr>
             else
               case select targetId of
                 Inl e \<Rightarrow> \<lparr>page = p1, defaultPrevented = True, raised = Some e\<rparr>
               | Inr None \<Rightarrow> \<lparr>page = p1, defaultPrevented = True, raised = None\<rparr>
               | Inr (Some targetElement) \<Rightarrow>
                   let p2 = p1\<lparr>scrolls := scrolls p1 @ [offsetTop (nodes p1 ! targetElement) - 90]\<rparr>;
                       p3 = p2\<lparr>nodes := map (\<lambda>link. if nav_link link
                                                    then classes_remove ''active'' link else link)
                                           (nodes p2)\<rparr>;
                       p4 = p3\<lparr>nodes := (nodes p3)[this := classes_add ''active'' (nodes p3 ! this)]\<rparr>
                   in \<lparr>page = p4, defaultPrevented = True, raised = None\<rparr>)"

text \<open>A page with a menu that is open, a link \<open>#\<close> and a link to a section.\<close>

definition sample_site :: site where
  "sample_site =
     \<lparr>nodes =
        [\<lparr>href = [], classes = [''nav-links'', ''show''], nav_link = False, offsetTop = 0\<rparr>,
         \<lparr>href = ''#'', classes = [], nav_link = True, offsetTop = 10\<rparr>,
         \<lparr>href = ''#about'', classes = [''active''], nav_link = True, offsetTop = 10\<rparr>,
         \<lparr>href = [], classes = [], nav_link = False, offsetTop = 700\<rparr>],
      menuToggle = Some 3, navLinks = Some 0, anchors = [1, 2], galleryItems = [],
      modal = None, modalImg = None, closeModal = Some 3, contactForm = None, scrolls = []\<rparr>"

definition sample_select :: "string \<Rightarrow> error + nat option" where
  "sample_select s = (if s = ''#about'' then Inr (Some 3) else Inr None)"

section \<open>Properties of debounce\<close>

lemma armed_iff:
  "armed delay t a s \<longleftrightarrow>
   (\<exists>i. pending s = [\<lparr>timer_id = i, due = t + delay, args = a\<rparr>] \<and> timeoutId s = Some i)"
  by (auto simp: armed_def split: list.splits)

lemma run_timers_idle: "pending s = [] \<Longrightarrow> run_timers p s = s"
  by (simp add: run_timers_def)

lemma run_timers_armed_not:
  "armed delay t a s \<Longrightarrow> \<not> p (t + delay) \<Longrightarrow> run_timers p s = s"
  by (auto simp: armed_iff run_timers_def)

lemma run_timers_armed_yes:
  "armed delay t a s \<Longrightarrow> p (t + delay) \<Longrightarrow>
   run_timers p s = s\<lparr>pending := [], invocations := invocations s @ [(t + delay, a)]\<rparr>"
  by (auto simp: armed_iff run_timers_def fire_def)

lemma debounce_idle:
  "pending s = [] \<Longrightarrow>
   armed delay t a (debounce delay t a s) \<and> invocations (debounce delay t a s) = invocations s"
  by (auto simp: armed_iff debounce_def clearTimeout_def setTimeout_def split: option.splits)

lemma debounce_armed:
  "armed delay t0 a0 s \<Longrightarrow>
   armed delay t a (debounce delay t a s) \<and> invocations (debounce delay t a s) = invocations s"
  by (auto simp: armed_iff debounce_def clearTimeout_def setTimeout_def split: option.splits)

lemma call_at_idle:
  "pending s = [] \<Longrightarrow>
   armed delay t a (call_at has_run delay t a s) \<and> invocations (call_at has_run delay t a s) = invocations s"
  by (simp add: call_at_def run_timers_idle debounce_idle)

lemma call_at_rapid:
  assumes "armed delay t0 a0 s" and "t < t0 + delay"
  shows "armed delay t a (call_at has_run delay t a s) \<and>
         invocations (call_at has_run delay t a s) = invocations s"
proof -
  have "run_timers (\<lambda>d. d \<le> t \<and> has_run t d) s = s"
    using assms by (intro run_timers_armed_not [of delay t0 a0]) auto
  then show ?thesis
    using assms(1) by (simp add: call_at_def debounce_armed)
qed

lemma call_at_ran:
  assumes "armed delay t0 a0 s" and "t0 + delay \<le> t" and "has_run t (t0 + delay)"
  shows "armed delay t a (call_at has_run delay t a s) \<and>
         invocations (call_at has_run delay t a s) = invocations s @ [(t0 + delay, a0)]"
proof -
  let ?p = "\<lambda>d. d \<le> t \<and> has_run t d"
  have "run_timers ?p s = s\<lparr>pending := [], invocations := invocations s @ [(t0 + delay, a0)]\<rparr>"
    using assms by (intro run_timers_armed_yes) auto
  then show ?thesis
    using debounce_idle [of "run_timers ?p s" delay t a] by (simp add: call_at_def)
qed

text \<open>A call made while the timer of the call before it is pending cancels that timer.\<close>

lemma call_at_cancels:
  assumes "armed delay t0 a0 s" and "\<not> has_run t (t0 + delay)"
  shows "armed delay t a (call_at has_run delay t a s) \<and>
         invocations (call_at has_run delay t a s) = invocations s"
proof -
  have "run_timers (\<lambda>d. d \<le> t \<and> has_run t d) s = s"
    using assms by (intro run_timers_armed_not [of delay t0 a0]) auto
  then show ?thesis
    using assms(1) by (simp add: call_at_def debounce_armed)
qed

lemma settle_armed:
  "armed delay t a s \<Longrightarrow>
   invocations (settle T s) =
     (if t + delay \<le> T then invocations s @ [(t + delay, a)] else invocations s)"
  using run_timers_armed_yes [of delay t a s "\<lambda>d. d \<le> T"]
        run_timers_armed_not [of delay t a s "\<lambda>d. d \<le> T"]
  by (simp add: settle_def)

lemma run_calls_rapid:
  "armed delay t0 a0 s \<Longrightarrow> rapid delay ((t0, a0) # cs) \<Longrightarrow>
   armed delay (fst (last ((t0, a0) # cs))) (snd (last ((t0, a0) # cs))) (run_calls has_run delay cs s)
   \<and> invocations (run_calls has_run delay cs s) = invocations s"
proof (induction cs arbitrary: t0 a0 s)
  case Nil
  then show ?case by simp
next
  case (Cons c cs)
  obtain t a where c: "c = (t, a)" by (cases c)
  from Cons.prems c have lt: "t < t0 + delay" and rest: "rapid delay ((t, a) # cs)"
    by simp_all
  from call_at_rapid [OF Cons.prems(1) lt, of a has_run]
  have arm: "armed delay t a (call_at has_run delay t a s)"
    and inv: "invocations (call_at has_run delay t a s) = invocations s" by simp_all
  from Cons.IH [OF arm rest] inv c show ?case by simp
qed

lemma run_calls_ran:
  "armed delay t0 a0 s \<Longrightarrow> spaced delay ((t0, a0) # cs) \<Longrightarrow>
   timers_ran has_run delay ((t0, a0) # cs) \<Longrightarrow>
   armed delay (fst (last ((t0, a0) # cs))) (snd (last ((t0, a0) # cs))) (run_calls has_run delay cs s)
   \<and> invocations (run_calls has_run delay cs s) =
       invocations s @ map (\<lambda>(t, a). (t + delay, a)) (butlast ((t0, a0) # cs))"
proof (induction cs arbitrary: t0 a0 s)
  case Nil
  then show ?case by simp
next
  case (Cons c cs)
  obtain t a where c: "c = (t, a)" by (cases c)
  from Cons.prems c have lt: "t0 + delay \<le> t" and rest: "spaced delay ((t, a) # cs)"
    and ran: "has_run t (t0 + delay)" and rest': "timers_ran has_run delay ((t, a) # cs)"
    by simp_all
  from call_at_ran [of delay t0 a0 s t has_run a, OF Cons.prems(1) lt ran]
  have arm: "armed delay t a (call_at has_run delay t a s)"
    and inv: "invocations (call_at has_run delay t a s) = invocations s @ [(t0 + delay, a0)]"
    by simp_all
  from Cons.IH [OF arm rest rest'] inv c show ?case by simp
qed

text \<open>
  Claim C1. A non-empty sequence of calls of the wrapper, every two consecutive calls
  strictly less than \<open>delay\<close> apart, makes \<open>func\<close> run exactly once, with the arguments of
  the last call, at the moment \<open>delay\<close> has elapsed since the last call: observed at any
  time \<open>T\<close>, the log of runs is empty before that moment and holds that single run from
  then on. This holds whatever the event loop \<open>has_run\<close> by each call, since no timer is due
  at a call of such a sequence.
\<close>

theorem debounce_rapid_calls_invoke_once:
  assumes "calls \<noteq> []" and "rapid delay calls"
  shows "invocations (settle T (run_calls has_run delay calls debounce_init)) =
           (if fst (last calls) + delay \<le> T
            then [(fst (last calls) + delay, snd (last calls))] else [])"
proof -
  obtain t0 a0 cs where calls: "calls = (t0, a0) # cs"
    using assms(1) by (cases calls) auto
  let ?s = "call_at has_run delay t0 a0 debounce_init"
  have "pending (debounce_init :: 'a debounce_state) = []"
    by (simp add: debounce_init_def)
  from call_at_idle [OF this, of delay t0 a0 has_run]
  have arm: "armed delay t0 a0 ?s" and inv: "invocations ?s = []"
    by (simp_all add: debounce_init_def)
  from run_calls_rapid [OF arm, of cs has_run] assms(2) calls inv
  have "armed delay (fst (last calls)) (snd (last calls)) (run_calls has_run delay calls debounce_init)"
    and "invocations (run_calls has_run delay calls debounce_init) = []"
    by simp_all
  then show ?thesis
    by (simp add: settle_armed)
qed

text \<open>Three calls at 0, 10 and 59 ms with a delay of 50 ms: one run, at 109 ms.\<close>

theorem debounce_rapid_calls_invoke_once_witness:
  "rapid 50 [(0, ''a''), (10, ''b''), (59, ''c'')]
   \<and> invocations (settle 200 (run_calls (late_by 0) 50 [(0, ''a''), (10, ''b''), (59, ''c'')] debounce_init))
     = [(109, ''c'')]
   \<and> invocations (settle 108 (run_calls (late_by 0) 50 [(0, ''a''), (10, ''b''), (59, ''c'')] debounce_init))
     = []"
  using debounce_rapid_calls_invoke_once [of "[(0, ''a''), (10, ''b''), (59, ''c'')]" 50 200 "late_by 0"]
        debounce_rapid_calls_invoke_once [of "[(0, ''a''), (10, ''b''), (59, ''c'')]" 50 108 "late_by 0"]
  by simp

text \<open>
  Claim C4 as stated: calls strictly more than \<open>delay\<close> apart have one run of \<open>func\<close> each.
  The timer of a call is due \<open>delay\<close> after the call, but it runs only when the event loop
  gets to it, and the next call cancels it if it is still pending then. With a delay of
  50 ms and timers that run 20 ms late, the calls at 0 and 60 ms are more than the delay
  apart; the timer of the first, due at 50 ms, is cancelled by the second, and \<open>func\<close>
  runs once for the two calls.
\<close>

theorem debounce_spaced_calls_late_timer_counterexample:
  "spaced 50 [(0, ''a''), (60, ''b'')]
   \<and> invocations (settle 200 (run_calls (late_by 20) 50 [(0, ''a''), (60, ''b'')] debounce_init))
     = [(110, ''b'')]
   \<and> length (invocations (settle 200
         (run_calls (late_by 20) 50 [(0, ''a''), (60, ''b'')] debounce_init)))
     \<noteq> length [(0, ''a''), (60, ''b'')]"
  by (simp add: late_by_def call_at_def settle_def run_timers_def debounce_def debounce_init_def
        clearTimeout_def setTimeout_def fire_def)

text \<open>
  Claim C4, as amended. When every two consecutive calls are strictly more than \<open>delay\<close>
  apart and the timer set by each call has run when the next call is made, each call has
  its own run of \<open>func\<close>, with the call's arguments and due \<open>delay\<close> after the call: once
  the timer of the last call has run too, \<open>N\<close> calls have given \<open>N\<close> runs.
\<close>

theorem debounce_spaced_calls_invoke_each:
  assumes "spaced delay calls" and "timers_ran has_run delay calls"
    and "calls \<noteq> [] \<longrightarrow> fst (last calls) + delay \<le> T"
  shows "invocations (settle T (run_calls has_run delay calls debounce_init)) =
           map (\<lambda>(t, a). (t + delay, a)) calls
         \<and> length (invocations (settle T (run_calls has_run delay calls debounce_init))) = length calls"
proof (cases calls)
  case Nil
  then show ?thesis
    by (simp add: settle_def run_timers_def debounce_init_def)
next
  case (Cons c cs)
  obtain t0 a0 where c: "c = (t0, a0)" by (cases c)
  let ?s = "call_at has_run delay t0 a0 debounce_init"
  have "pending (debounce_init :: 'a debounce_state) = []"
    by (simp add: debounce_init_def)
  from call_at_idle [OF this, of delay t0 a0 has_run]
  have arm: "armed delay t0 a0 ?s" and inv: "invocations ?s = []"
    by (simp_all add: debounce_init_def)
  from run_calls_ran [OF arm, of cs has_run] assms(1,2) Cons c inv
  have arm': "armed delay (fst (last calls)) (snd (last calls)) (run_calls has_run delay calls debounce_init)"
    and inv': "invocations (run_calls has_run delay calls debounce_init) =
        map (\<lambda>(t, a). (t + delay, a)) (butlast calls)"
    by simp_all
  have "map (\<lambda>(t, a). (t + delay, a)) (butlast calls) @ [(fst (last calls) + delay, snd (last calls))]
        = map (\<lambda>(t, a). (t + delay, a)) (butlast calls @ [last calls])"
    by (simp add: case_prod_beta)
  also have "\<dots> = map (\<lambda>(t, a). (t + delay, a)) calls"
    using Cons by (simp only: append_butlast_last_id list.distinct not_False_eq_True)
  finally have "invocations (settle T (run_calls has_run delay calls debounce_init)) =
           map (\<lambda>(t, a). (t + delay, a)) calls"
    using settle_armed [OF arm', of T] inv' assms(3) Cons by simp
  then show ?thesis by simp
qed

text \<open>
  Three calls at 0, 60 and 120 ms with a delay of 50 ms and timers that run 5 ms late:
  three runs, of the timers due at 50, 110 and 170 ms.
\<close>

theorem debounce_spaced_calls_invoke_each_witness:
  "spaced 50 [(0, ''a''), (60, ''b''), (120, ''c'')]
   \<and> timers_ran (late_by 5) 50 [(0, ''a''), (60, ''b''), (120, ''c'')]
   \<and> invocations (settle 175 (run_calls (late_by 5) 50 [(0, ''a''), (60, ''b''), (120, ''c'')]
         debounce_init))
     = [(50, ''a''), (110, ''b''), (170, ''c'')]
   \<and> length (invocations (settle 175
         (run_calls (late_by 5) 50 [(0, ''a''), (60, ''b''), (120, ''c'')] debounce_init))) = 3"
  using debounce_spaced_calls_invoke_each
          [of 50 "[(0, ''a''), (60, ''b''), (120, ''c'')]" "late_by 5" 175]
  by (simp add: late_by_def)

lemma tidy_cases: "tidy s \<Longrightarrow> pending s = [] \<or> (\<exists>u. pending s = [u] \<and> timeoutId s = Some (timer_id u))"
  by (auto simp: tidy_def split: list.splits)

lemma tidy_run_timers:
  assumes "tidy s"
  shows "tidy (run_timers p s)"
  using tidy_cases [OF assms] by (auto simp: run_timers_def fire_def tidy_def)

lemma tidy_debounce:
  assumes "tidy s"
  shows "armed delay t a (debounce delay t a s)"
  using tidy_cases [OF assms]
  by (auto simp: armed_iff debounce_def clearTimeout_def setTimeout_def split: option.splits)

lemma armed_tidy: "armed delay t a s \<Longrightarrow> tidy s"
  by (auto simp: armed_iff tidy_def)

lemma tidy_run_event: "tidy s \<Longrightarrow> tidy (run_event has_run delay e s)"
  by (cases e) (auto simp: call_at_def settle_def intro: tidy_run_timers armed_tidy tidy_debounce)

lemma tidy_fold: "tidy s \<Longrightarrow> tidy (fold (run_event has_run delay) evs s)"
  by (induction evs arbitrary: s) (auto intro: tidy_run_event)

text \<open>
  Claim C6, as amended. Whatever calls of the wrapper and whatever passages of time have
  happened, at most one timer of the wrapper is pending; and a call at time \<open>t\<close> with \<open>a\<close>
  leaves exactly one pending timer, due at \<open>t + delay\<close> and carrying \<open>a\<close>, any timer
  that was pending before having been cancelled.
\<close>

theorem debounce_at_most_one_timer:
  "length (pending (fold (run_event has_run delay) evs debounce_init)) \<le> 1 \<and>
   armed delay t a (call_at has_run delay t a (fold (run_event has_run delay) evs debounce_init))"
proof -
  have "tidy (debounce_init :: 'a debounce_state)"
    by (simp add: tidy_def debounce_init_def)
  then have t: "tidy (fold (run_event has_run delay) evs debounce_init)"
    by (rule tidy_fold)
  then have "length (pending (fold (run_event has_run delay) evs debounce_init)) \<le> 1"
    by (auto dest!: tidy_cases)
  moreover have "armed delay t a (call_at has_run delay t a (fold (run_event has_run delay) evs debounce_init))"
    unfolding call_at_def by (intro tidy_debounce tidy_run_timers t)
  ultimately show ?thesis by simp
qed

theorem debounce_at_most_one_timer_witness:
  "length (pending (fold (run_event (late_by 0) 50) [Call 0 ''a'', Call 20 ''b'', Elapse 60]
      debounce_init)) \<le> 1 \<and>
   armed 50 80 ''c'' (call_at (late_by 0) 50 80 ''c''
     (fold (run_event (late_by 0) 50) [Call 0 ''a'', Call 20 ''b'', Elapse 60] debounce_init))"
  using debounce_at_most_one_timer [of "late_by 0" 50 "[Call 0 ''a'', Call 20 ''b'', Elapse 60]" 80 "''c''"]
  by simp

text \<open>
  Claim C6 as stated asks for exactly one pending timer at every time. Once the timer of
  a call has run, none is pending (and none is before the first call).
\<close>

theorem debounce_exactly_one_timer_counterexample:
  "length (pending (fold (run_event (late_by 0) 50) [Call 0 ''a'', Elapse 50] debounce_init)) \<noteq> 1"
  by (simp add: late_by_def call_at_def settle_def run_timers_def debounce_def debounce_init_def
        clearTimeout_def setTimeout_def fire_def)


section \<open>Properties of the contact form\<close>

subsection \<open>The matcher decides the language of the pattern\<close>

lemma in_lang_RSeq: "w \<in> lang (RSeq r s) \<longleftrightarrow> (\<exists>u v. w = u @ v \<and> u \<in> lang r \<and> v \<in> lang s)"
  by simp

lemma nullable_lang: "nullable r \<longleftrightarrow> [] \<in> lang r"
  by (induction r) (simp_all add: star_empty)

lemma star_cons:
  "c # w \<in> star A \<longleftrightarrow> (\<exists>u v. w = u @ v \<and> c # u \<in> A \<and> v \<in> star A)"
proof
  have "\<exists>u v. w = u @ v \<and> c # u \<in> A \<and> v \<in> star A" if "x \<in> star A" and "x = c # w" for x w
    using that
  proof (induction arbitrary: w rule: star.induct)
    case star_empty
    then show ?case by simp
  next
    case (star_step u v)
    show ?case
    proof (cases u)
      case Nil
      with star_step.prems have "v = c # w" by simp
      then show ?thesis by (rule star_step.IH)
    next
      case (Cons d u')
      with star_step.prems have "d = c" "w = u' @ v" by simp_all
      with star_step.hyps Cons show ?thesis by blast
    qed
  qed
  then show "c # w \<in> star A \<Longrightarrow> \<exists>u v. w = u @ v \<and> c # u \<in> A \<and> v \<in> star A"
    by blast
next
  assume "\<exists>u v. w = u @ v \<and> c # u \<in> A \<and> v \<in> star A"
  then obtain u v where "w = u @ v" "c # u \<in> A" "v \<in> star A" by blast
  then show "c # w \<in> star A"
    using star_step [of "c # u" A v] by simp
qed

lemma deriv_RSeq_lang:
  assumes r: "\<And>w. w \<in> lang (deriv c r) \<longleftrightarrow> c # w \<in> lang r"
    and s: "\<And>w. w \<in> lang (deriv c s) \<longleftrightarrow> c # w \<in> lang s"
  shows "w \<in> lang (deriv c (RSeq r s)) \<longleftrightarrow> c # w \<in> lang (RSeq r s)"
proof -
  have split: "c # w \<in> lang (RSeq r s) \<longleftrightarrow>
      (\<exists>u v. w = u @ v \<and> c # u \<in> lang r \<and> v \<in> lang s) \<or> ([] \<in> lang r \<and> c # w \<in> lang s)"
  proof
    assume "c # w \<in> lang (RSeq r s)"
    then obtain u v where uv: "c # w = u @ v" "u \<in> lang r" "v \<in> lang s"
      unfolding in_lang_RSeq by blast
    show "(\<exists>u v. w = u @ v \<and> c # u \<in> lang r \<and> v \<in> lang s) \<or> ([] \<in> lang r \<and> c # w \<in> lang s)"
    proof (cases u)
      case Nil
      with uv show ?thesis by simp
    next
      case (Cons d u')
      with uv have "w = u' @ v" "c # u' \<in> lang r" by simp_all
      with uv(3) show ?thesis by blast
    qed
  next
    assume "(\<exists>u v. w = u @ v \<and> c # u \<in> lang r \<and> v \<in> lang s) \<or> ([] \<in> lang r \<and> c # w \<in> lang s)"
    then consider u v where "w = u @ v" "c # u \<in> lang r" "v \<in> lang s"
      | "[] \<in> lang r" "c # w \<in> lang s"
      by blast
    then show "c # w \<in> lang (RSeq r s)"
    proof cases
      case 1
      then have "c # w = (c # u) @ v" by simp
      with 1(2,3) show ?thesis unfolding in_lang_RSeq by blast
    next
      case 2
      have "c # w = [] @ (c # w)" by simp
      with 2 show ?thesis unfolding in_lang_RSeq by blast
    qed
  qed
  have "w \<in> lang (deriv c (RSeq r s)) \<longleftrightarrow>
      (\<exists>u v. w = u @ v \<and> c # u \<in> lang r \<and> v \<in> lang s) \<or> ([] \<in> lang r \<and> c # w \<in> lang s)"
    by (simp add: r s nullable_lang)
  with split show ?thesis by simp
qed

lemma deriv_lang: "w \<in> lang (deriv c r) \<longleftrightarrow> c # w \<in> lang r"
proof (induction r arbitrary: w)
  case (RSeq r s)
  show ?case by (rule deriv_RSeq_lang) (rule RSeq)+
next
  case (RStar r)
  then show ?case by (simp add: star_cons)
qed auto

lemma fold_deriv_lang: "w \<in> lang (fold deriv s r) \<longleftrightarrow> s @ w \<in> lang r"
  by (induction s arbitrary: r) (simp_all add: deriv_lang)

lemma regex_test_lang: "regex_test r s \<longleftrightarrow> s \<in> lang r"
  by (simp add: regex_test_def nullable_lang fold_deriv_lang)

lemma star_class: "w \<in> star {[c] | c. p c} \<longleftrightarrow> (\<forall>c\<in>set w. p c)"
proof
  show "w \<in> star {[c] | c. p c} \<Longrightarrow> \<forall>c\<in>set w. p c"
    by (induction rule: star.induct) auto
next
  show "\<forall>c\<in>set w. p c \<Longrightarrow> w \<in> star {[c] | c. p c}"
  proof (induction w)
    case Nil
    show ?case by (rule star_empty)
  next
    case (Cons c w)
    then have "[c] \<in> {[c] | c. p c}" and "w \<in> star {[c] | c. p c}" by simp_all
    then have "[c] @ w \<in> star {[c] | c. p c}" by (rule star_step)
    then show ?case by simp
  qed
qed

lemma lang_plus_class:
  "w \<in> lang (RPlus (RClass p)) \<longleftrightarrow> w \<noteq> [] \<and> (\<forall>c\<in>set w. p c)"
proof
  assume "w \<in> lang (RPlus (RClass p))"
  then obtain c v where "w = [c] @ v" "p c" "v \<in> star {[c] | c. p c}"
    unfolding RPlus_def in_lang_RSeq by auto
  then show "w \<noteq> [] \<and> (\<forall>c\<in>set w. p c)"
    by (simp add: star_class)
next
  assume w: "w \<noteq> [] \<and> (\<forall>c\<in>set w. p c)"
  then obtain c v where cv: "w = c # v" by (cases w) auto
  with w have "[c] \<in> lang (RClass p)" "v \<in> lang (RStar (RClass p))"
    by (simp_all add: star_class)
  moreover have "w = [c] @ v" using cv by simp
  ultimately show "w \<in> lang (RPlus (RClass p))"
    unfolding RPlus_def in_lang_RSeq by blast
qed

lemma emailPattern_lang:
  "s \<in> lang emailPattern \<longleftrightarrow>
     (\<exists>a b c. s = a @ [0x40] @ b @ [0x2E] @ c \<and>
        a \<in> lang (RPlus (RClass not_space_or_at)) \<and>
        b \<in> lang (RPlus (RClass not_space_or_at)) \<and>
        c \<in> lang (RPlus (RClass not_space_or_at)))"
proof
  let ?P = "RPlus (RClass not_space_or_at)"
  assume "s \<in> lang emailPattern"
  then obtain a t where a: "s = a @ t" "a \<in> lang ?P"
    and "t \<in> lang (RSeq (RClass (\<lambda>c. c = 0x40)) (RSeq ?P (RSeq (RClass (\<lambda>c. c = 0x2E)) ?P)))"
    unfolding emailPattern_def in_lang_RSeq [of s] by blast
  then obtain u where u: "t = [0x40] @ u"
    and "u \<in> lang (RSeq ?P (RSeq (RClass (\<lambda>c. c = 0x2E)) ?P))"
    unfolding in_lang_RSeq [of t] by auto
  then obtain b v where b: "u = b @ v" "b \<in> lang ?P"
    and "v \<in> lang (RSeq (RClass (\<lambda>c. c = 0x2E)) ?P)"
    unfolding in_lang_RSeq [of u] by blast
  then obtain c where c: "v = [0x2E] @ c" "c \<in> lang ?P"
    unfolding in_lang_RSeq [of v] by auto
  from a u b c show "\<exists>a b c. s = a @ [0x40] @ b @ [0x2E] @ c \<and>
        a \<in> lang ?P \<and> b \<in> lang ?P \<and> c \<in> lang ?P"
    by blast
next
  let ?P = "RPlus (RClass not_space_or_at)"
  assume "\<exists>a b c. s = a @ [0x40] @ b @ [0x2E] @ c \<and>
        a \<in> lang ?P \<and> b \<in> lang ?P \<and> c \<in> lang ?P"
  then obtain a b c where s: "s = a @ [0x40] @ b @ [0x2E] @ c"
    and a: "a \<in> lang ?P" and b: "b \<in> lang ?P" and c: "c \<in> lang ?P"
    by blast
  have "[0x2E] \<in> lang (RClass (\<lambda>c. c = 0x2E))" by simp
  with c have "[0x2E] @ c \<in> lang (RSeq (RClass (\<lambda>c. c = 0x2E)) ?P)"
    unfolding in_lang_RSeq by blast
  with b have "b @ [0x2E] @ c \<in> lang (RSeq ?P (RSeq (RClass (\<lambda>c. c = 0x2E)) ?P))"
    unfolding in_lang_RSeq [of "b @ [0x2E] @ c"] by blast
  moreover have "[0x40] \<in> lang (RClass (\<lambda>c. c = 0x40))" by simp
  ultimately have "[0x40] @ b @ [0x2E] @ c
      \<in> lang (RSeq (RClass (\<lambda>c. c = 0x40)) (RSeq ?P (RSeq (RClass (\<lambda>c. c = 0x2E)) ?P)))"
    unfolding in_lang_RSeq [of "[0x40] @ b @ [0x2E] @ c"] by blast
  with a show "s \<in> lang emailPattern"
    unfolding emailPattern_def s in_lang_RSeq [of "a @ [0x40] @ b @ [0x2E] @ c"] by blast
qed

lemma emailPattern_test: "regex_test emailPattern s \<longleftrightarrow> email_shape s"
  unfolding regex_test_lang emailPattern_lang lang_plus_class email_shape_def email_part_def
    not_space_or_at_def
  by (rule refl)

subsection \<open>validateForm and the submit handler\<close>

lemma trim_blank:
  assumes "\<forall>c\<in>set s. is_space c"
  shows "trim s = []"
proof -
  have "dropWhile is_space s = []"
    using assms by simp
  then show ?thesis
    unfolding trim_def by (simp only: rev.simps dropWhile.simps)
qed

lemma check_required_eq:
  "check_required i (v, es) = (v \<and> trim (value (es ! i)) \<noteq> [], es[i := mark_required (es ! i)])"
  by (simp add: check_required_def mark_required_def)

lemma fold_check_required:
  assumes "distinct ks" and "\<forall>i\<in>set ks. i < length es"
  shows "fold check_required ks (v, es) =
           (v \<and> (\<forall>i\<in>set ks. trim (value (es ! i)) \<noteq> []),
            map (\<lambda>j. if j \<in> set ks then mark_required (es ! j) else es ! j) [0..<length es])"
  using assms
proof (induction ks arbitrary: v es)
  case Nil
  then show ?case by (simp add: map_nth)
next
  case (Cons i ks)
  let ?es1 = "es[i := mark_required (es ! i)]"
  have d: "distinct ks" and b: "\<forall>k\<in>set ks. k < length ?es1" and i: "i \<notin> set ks" "i < length es"
    using Cons.prems by simp_all
  have same: "\<And>k. k \<in> set ks \<Longrightarrow> ?es1 ! k = es ! k"
    using i by (metis nth_list_update_neq)
  have "map (\<lambda>j. if j \<in> set ks then mark_required (?es1 ! j) else ?es1 ! j) [0..<length ?es1]
        = map (\<lambda>j. if j \<in> set (i # ks) then mark_required (es ! j) else es ! j) [0..<length es]"
    using i by (auto simp: nth_list_update)
  moreover have "(\<forall>k\<in>set ks. trim (value (?es1 ! k)) \<noteq> []) = (\<forall>k\<in>set ks. trim (value (es ! k)) \<noteq> [])"
    using same by simp
  ultimately show ?case
    using Cons.IH [OF d b, of "v \<and> trim (value (es ! i)) \<noteq> []"]
    by (simp add: check_required_eq)
qed

lemma querySelectorAll_bound: "i \<in> set (querySelectorAll sel es) \<longleftrightarrow> i < length es \<and> sel (es ! i)"
  by (auto simp: querySelectorAll_def)

lemma querySelectorAll_distinct: "distinct (querySelectorAll sel es)"
  by (simp add: querySelectorAll_def)

lemma querySelectorAll_static:
  assumes "map static es' = map static es" and "\<And>e e'. static e' = static e \<Longrightarrow> sel e' = sel e"
  shows "querySelectorAll sel es' = querySelectorAll sel es"
proof -
  have len: "length es' = length es"
    using assms(1) by (rule map_eq_imp_length_eq)
  have "\<And>i. i < length es \<Longrightarrow> sel (es' ! i) = sel (es ! i)"
  proof -
    fix i assume "i < length es"
    then have "static (es' ! i) = static (es ! i)"
      using assms(1) len by (metis nth_map)
    then show "sel (es' ! i) = sel (es ! i)" by (rule assms(2))
  qed
  then show ?thesis
    unfolding querySelectorAll_def len by (intro filter_cong) auto
qed

lemma querySelector_static:
  assumes "map static es' = map static es" and "\<And>e e'. static e' = static e \<Longrightarrow> sel e' = sel e"
  shows "querySelector sel es' = querySelector sel es"
  by (simp add: querySelector_def querySelectorAll_static [OF assms])

lemma getElementById_static:
  assumes "map static es' = map static es"
  shows "getElementById x es' = getElementById x es"
  unfolding getElementById_def
  by (rule querySelector_static [OF assms]) (simp add: static_def)

lemma querySelector_Some:
  "querySelector sel es = Some i \<Longrightarrow> i < length es \<and> sel (es ! i)"
  using querySelectorAll_bound [of i sel es]
  by (auto simp: querySelector_def split: list.splits)

lemma static_mark_required [simp]: "static (mark_required e) = static e"
  by (simp add: mark_required_def static_def classList_add_def classList_remove_def)

lemma value_mark_required [simp]: "value (mark_required e) = value e"
  by (simp add: mark_required_def classList_add_def classList_remove_def)

lemma invalid_mark_required [simp]:
  "''is-invalid'' \<in> set (classList (mark_required e)) \<longleftrightarrow> trim (value e) = []"
  by (simp add: mark_required_def classList_add_def classList_remove_def)

lemma marked_eq: "marked es = map (\<lambda>e. if in_form e \<and> required e then mark_required e else e) es"
  by (rule nth_equalityI) (simp_all add: marked_def)

lemma all_required_filled_length:
  "all_required_filled es \<longleftrightarrow>
     (\<forall>i<length es. in_form (es ! i) \<and> required (es ! i) \<longrightarrow> trim (value (es ! i)) \<noteq> [])"
  by (simp add: all_required_filled_def list_all_length)

lemma validateForm_loop:
  "fold check_required (querySelectorAll (\<lambda>e. in_form e \<and> required e) es) (True, es) =
     (all_required_filled es, marked es)"
proof -
  let ?R = "querySelectorAll (\<lambda>e. in_form e \<and> required e) es"
  have "\<forall>i\<in>set ?R. i < length es"
    by (simp add: querySelectorAll_bound)
  from fold_check_required [OF querySelectorAll_distinct this, of True]
  show ?thesis
    by (auto simp: querySelectorAll_bound marked_def all_required_filled_length)
qed

lemma static_marked: "map static (marked es) = map static es"
  by (simp add: marked_eq)

lemma length_marked [simp]: "length (marked es) = length es"
  by (simp add: marked_def)

lemma value_marked: "j < length es \<Longrightarrow> value (marked es ! j) = value (es ! j)"
  by (simp add: marked_def)

lemma invalid_marked:
  "j < length es \<Longrightarrow> in_form (es ! j) \<Longrightarrow> required (es ! j) \<Longrightarrow>
   ''is-invalid'' \<in> set (classList (marked es ! j)) \<longleftrightarrow> trim (value (es ! j)) = []"
  by (simp add: marked_def)

lemma emailField_marked: "emailField (marked es) = emailField es"
  unfolding emailField_def
  by (rule querySelector_static [OF static_marked]) (simp add: static_def)

lemma emailField_bound: "emailField es = Some j \<Longrightarrow> j < length es"
  unfolding emailField_def by (drule querySelector_Some) simp

lemma static_update:
  "static e' = static (es ! j) \<Longrightarrow> map static (es[j := e']) = map static es"
  by (cases "j < length es") (auto simp: nth_list_update intro!: nth_equalityI)

lemma value_update:
  "value e' = value (es ! j) \<Longrightarrow> i < length es \<Longrightarrow> value (es[j := e'] ! i) = value (es ! i)"
  by (cases "j < length es") (auto simp: nth_list_update)

lemma static_classList_add [simp]: "static (classList_add c e) = static e"
  by (simp add: classList_add_def static_def)

lemma value_classList_add [simp]: "value (classList_add c e) = value e"
  by (simp add: classList_add_def)

lemma classList_add_mem [simp]: "c \<in> set (classList (classList_add c e))"
  by (simp add: classList_add_def)

lemma validateForm_eq:
  "validateForm es =
     (case emailField es of
        None \<Rightarrow> (all_required_filled es, marked es)
      | Some j \<Rightarrow>
          if bad_email es j
          then (False, (marked es)[j := classList_add ''is-invalid'' (marked es ! j)])
          else (all_required_filled es, marked es))"
proof -
  have "validateForm es =
     (case emailField (marked es) of
        None \<Rightarrow> (all_required_filled es, marked es)
      | Some j \<Rightarrow>
          if trim (value (marked es ! j)) \<noteq> []
          then (if \<not> regex_test emailPattern (trim (value (marked es ! j)))
                then (False, (marked es)[j := classList_add ''is-invalid'' (marked es ! j)])
                else (all_required_filled es, marked es))
          else (all_required_filled es, marked es))"
    unfolding emailField_def
    by (simp add: validateForm_def validateForm_loop)
  then show ?thesis
    by (auto simp: emailField_marked bad_email_def value_marked emailField_bound
             split: option.splits)
qed

lemma validateForm_valid:
  "fst (validateForm es) \<longleftrightarrow> all_required_filled es \<and> (\<forall>j. \<not> bad_email es j)"
  by (auto simp: validateForm_eq bad_email_def split: option.splits)

lemma validateForm_length: "length (snd (validateForm es)) = length es"
  by (simp add: validateForm_eq split: option.splits)

lemma validateForm_static: "map static (snd (validateForm es)) = map static es"
  by (simp add: validateForm_eq static_marked static_update split: option.splits)

lemma validateForm_value:
  "i < length es \<Longrightarrow> value (snd (validateForm es) ! i) = value (es ! i)"
  by (simp add: validateForm_eq value_marked value_update split: option.splits)

lemma validateForm_invalid_class:
  assumes "i < length es" and "in_form (es ! i)" and "required (es ! i)"
  shows "''is-invalid'' \<in> set (classList (snd (validateForm es) ! i)) \<longleftrightarrow>
           trim (value (es ! i)) = [] \<or> bad_email es i"
proof (cases "emailField es")
  case None
  then show ?thesis
    using assms by (simp add: validateForm_eq invalid_marked bad_email_def)
next
  case (Some j)
  show ?thesis
  proof (cases "bad_email es j")
    case False
    then have "\<not> bad_email es i"
      using Some by (auto simp: bad_email_def)
    then show ?thesis
      using assms Some False by (simp add: validateForm_eq invalid_marked)
  next
    case True
    show ?thesis
    proof (cases "i = j")
      case True
      then show ?thesis
        using assms Some \<open>bad_email es j\<close> by (simp add: validateForm_eq)
    next
      case False
      then have "\<not> bad_email es i"
        using Some by (auto simp: bad_email_def)
      then show ?thesis
        using assms Some True False by (simp add: validateForm_eq invalid_marked)
    qed
  qed
qed

lemma blank_required_rejected:
  assumes "i < length es" and "in_form (es ! i)" and "required (es ! i)"
    and "trim (value (es ! i)) = []"
  shows "\<not> fst (validateForm es)"
    and "''is-invalid'' \<in> set (classList (snd (validateForm es) ! i))"
    and "submit_handler service es =
           \<lparr>effects = [PreventDefault], dom = snd (validateForm es), thrown = None\<rparr>"
proof -
  have "\<not> all_required_filled es"
    using assms by (auto simp: all_required_filled_length)
  then show v: "\<not> fst (validateForm es)"
    by (simp add: validateForm_valid)
  show "''is-invalid'' \<in> set (classList (snd (validateForm es) ! i))"
    using assms by (simp add: validateForm_invalid_class)
  show "submit_handler service es =
           \<lparr>effects = [PreventDefault], dom = snd (validateForm es), thrown = None\<rparr>"
    using v by (cases "validateForm es") (simp add: submit_handler_def)
qed

text \<open>
  Claim C3. When a required field of the form has an empty value, \<open>validateForm\<close> returns
  false and the submit handler returns right after \<open>preventDefault\<close>, without an exception:
  a submission never reaches \<open>emailjs.send\<close>.
\<close>

theorem empty_required_field_never_sends:
  assumes "i < length es" and "in_form (es ! i)" and "required (es ! i)"
    and "value (es ! i) = []"
  shows "\<not> fst (validateForm es) \<and>
         effects (submit_handler service es) = [PreventDefault] \<and>
         thrown (submit_handler service es) = None \<and>
         sends (effects (on_submit service es)) = []"
proof -
  have "trim (value (es ! i)) = []"
    using assms(4) by (simp add: trim_def)
  from blank_required_rejected [OF assms(1-3) this] show ?thesis
    by (simp add: on_submit_def)
qed

theorem empty_required_field_never_sends_witness:
  "\<not> fst (validateForm [form_field ''name'' True False [], submit_button_element]) \<and>
   effects (submit_handler Resolves [form_field ''name'' True False [], submit_button_element])
     = [PreventDefault] \<and>
   thrown (submit_handler Resolves [form_field ''name'' True False [], submit_button_element]) = None \<and>
   sends (effects (on_submit Resolves [form_field ''name'' True False [], submit_button_element])) = []"
  using empty_required_field_never_sends
    [of 0 "[form_field ''name'' True False [], submit_button_element]" Resolves]
  by (simp add: form_field_def)

text \<open>
  Claim C9. A required field whose value consists of whitespace only is treated as empty:
  \<open>validateForm\<close> gives it the class \<open>is-invalid\<close> and returns false, and the submission
  does not reach \<open>emailjs.send\<close>.
\<close>

theorem whitespace_required_field_is_empty:
  assumes "i < length es" and "in_form (es ! i)" and "required (es ! i)"
    and "value (es ! i) \<noteq> []" and "\<forall>c\<in>set (value (es ! i)). is_space c"
  shows "''is-invalid'' \<in> set (classList (snd (validateForm es) ! i)) \<and>
         \<not> fst (validateForm es) \<and>
         sends (effects (submit_handler service es)) = [] \<and>
         sends (effects (on_submit service es)) = []"
proof -
  have "trim (value (es ! i)) = []"
    using assms(5) by (rule trim_blank)
  from blank_required_rejected [OF assms(1-3) this] show ?thesis
    by (simp add: on_submit_def)
qed

theorem whitespace_required_field_is_empty_witness:
  "''is-invalid'' \<in> set (classList (snd (validateForm
       [form_field ''name'' True False [0x20, 0x09, 0xA0], submit_button_element]) ! 0)) \<and>
   \<not> fst (validateForm [form_field ''name'' True False [0x20, 0x09, 0xA0], submit_button_element]) \<and>
   sends (effects (submit_handler Resolves
       [form_field ''name'' True False [0x20, 0x09, 0xA0], submit_button_element])) = [] \<and>
   sends (effects (on_submit Resolves
       [form_field ''name'' True False [0x20, 0x09, 0xA0], submit_button_element])) = []"
  using whitespace_required_field_is_empty
    [of 0 "[form_field ''name'' True False [0x20, 0x09, 0xA0], submit_button_element]" Resolves]
  by (simp add: form_field_def is_space_def)

text \<open>
  Claim C5, as amended. \<open>validateForm\<close> returns true if and only if every required field
  has a value that is not empty once trimmed and the email field, when it is present with
  a value that is not empty once trimmed, matches the pattern. Afterwards a required field
  carries \<open>is-invalid\<close> if and only if its trimmed value is empty or it is the email field
  and fails the pattern.
\<close>

theorem validateForm_checks_trimmed_fields:
  "(fst (validateForm es) \<longleftrightarrow> all_required_filled es \<and> (\<forall>j. \<not> bad_email es j)) \<and>
   length (snd (validateForm es)) = length es \<and>
   (\<forall>i<length es. in_form (es ! i) \<and> required (es ! i) \<longrightarrow>
      (''is-invalid'' \<in> set (classList (snd (validateForm es) ! i)) \<longleftrightarrow>
         trim (value (es ! i)) = [] \<or> bad_email es i))"
  by (simp add: validateForm_valid validateForm_length validateForm_invalid_class)

theorem validateForm_checks_trimmed_fields_witness:
  "fst (validateForm contact_page) \<and> all_required_filled contact_page \<and>
   \<not> bad_email contact_page 1 \<and>
   ''is-invalid'' \<notin> set (classList (snd (validateForm contact_page) ! 0))"
proof -
  have a: "all_required_filled contact_page"
    by code_simp
  have e: "emailField contact_page = Some 1"
    by code_simp
  have m: "regex_test emailPattern (trim (value (contact_page ! 1)))"
    by code_simp
  have b: "\<forall>j. \<not> bad_email contact_page j"
    using m by (auto simp: bad_email_def e)
  have f: "0 < length contact_page" "in_form (contact_page ! 0)" "required (contact_page ! 0)"
    "trim (value (contact_page ! 0)) \<noteq> []"
    by code_simp+
  from validateForm_checks_trimmed_fields [of contact_page] a b f show ?thesis
    by blast
qed

text \<open>
  Claim C5 as stated speaks of non-empty values. A required field holding one space is
  not empty, the email field matches, and yet \<open>validateForm\<close> returns false and marks the
  field; and a required email field holding \<open>abc\<close> is not empty and keeps \<open>is-invalid\<close>.
\<close>

theorem validateForm_literal_nonempty_counterexample:
  "value ([form_field ''name'' True False [0x20],
           form_field ''email'' True True (js ''a@b.c'')] ! 0) \<noteq> [] \<and>
   value ([form_field ''name'' True False [0x20],
           form_field ''email'' True True (js ''a@b.c'')] ! 1) \<noteq> [] \<and>
   regex_test emailPattern (value ([form_field ''name'' True False [0x20],
           form_field ''email'' True True (js ''a@b.c'')] ! 1)) \<and>
   \<not> fst (validateForm [form_field ''name'' True False [0x20],
           form_field ''email'' True True (js ''a@b.c'')]) \<and>
   ''is-invalid'' \<in> set (classList (snd (validateForm [form_field ''name'' True False [0x20],
           form_field ''email'' True True (js ''a@b.c'')]) ! 0)) \<and>
   required ([form_field ''email'' True True (js ''abc'')] ! 0) \<and>
   value ([form_field ''email'' True True (js ''abc'')] ! 0) \<noteq> [] \<and>
   ''is-invalid'' \<in> set (classList (snd (validateForm
           [form_field ''email'' True True (js ''abc'')]) ! 0))"
  by (intro conjI; code_simp)

lemma static_setButtonLoading: "map static (setButtonLoading b l t es) = map static es"
  by (simp add: setButtonLoading_def static_update static_def)

lemma value_setButtonLoading:
  "i < length es \<Longrightarrow> value (setButtonLoading b l t es ! i) = value (es ! i)"
  by (simp add: setButtonLoading_def value_update)

lemma length_setButtonLoading [simp]: "length (setButtonLoading b l t es) = length es"
  by (simp add: setButtonLoading_def)

lemma static_showFormResponse: "map static (showFormResponse ok m es) = map static es"
  by (simp add: showFormResponse_def static_update static_def split: option.splits)

lemma static_form_reset: "map static (form_reset es) = map static es"
  by (simp add: form_reset_def static_def)

lemma getElementById_bound: "getElementById x es = Some i \<Longrightarrow> i < length es"
  unfolding getElementById_def by (drule querySelector_Some) simp

lemma has_value_static: "static e' = static e \<Longrightarrow> has_value e' = has_value e"
  by (simp add: static_def has_value_def)

lemma static_nth:
  assumes "map static es' = map static es" and "i < length es"
  shows "static (es' ! i) = static (es ! i)"
proof -
  have "length es' = length es"
    using assms(1) by (rule map_eq_imp_length_eq)
  then have "static (es' ! i) = map static es' ! i" and "static (es ! i) = map static es ! i"
    using assms(2) by simp_all
  then show ?thesis
    using assms(1) by simp
qed

lemma value_of_id_static:
  assumes "map static es' = map static es"
    and "\<And>i. i < length es \<Longrightarrow> value (es' ! i) = value (es ! i)"
  shows "value_of_id x es' = value_of_id x es"
proof (cases "getElementById x es")
  case None
  then show ?thesis
    by (simp add: value_of_id_def getElementById_static [OF assms(1)])
next
  case (Some i)
  then have i: "i < length es"
    by (rule getElementById_bound)
  have "has_value (es' ! i) = has_value (es ! i)"
    by (rule has_value_static [OF static_nth [OF assms(1) i]])
  then have "value_prop (es' ! i) = value_prop (es ! i)"
    using assms(2) [OF i] by (simp add: value_prop_def)
  then show ?thesis
    using Some by (simp add: value_of_id_def getElementById_static [OF assms(1)])
qed

lemma collect_formData_static:
  assumes "map static es' = map static es"
    and "\<And>i. i < length es \<Longrightarrow> value (es' ! i) = value (es ! i)"
  shows "collect_formData es' = collect_formData es"
  by (simp add: collect_formData_def trimmed_value_of_id_def value_of_id_static [OF assms]
        cong: sum.case_cong)

lemma trimmed_value_of_id_control:
  "control_with_id x es \<Longrightarrow> \<exists>v. trimmed_value_of_id x es = Inr v"
  by (auto simp: control_with_id_def trimmed_value_of_id_def value_of_id_def value_prop_def
        split: option.splits)

lemma trimmed_value_of_id_plain:
  "\<not> control_with_id x es \<Longrightarrow> trimmed_value_of_id x es = Inl TypeError"
  by (auto simp: control_with_id_def trimmed_value_of_id_def value_of_id_def value_prop_def
        split: option.splits)

lemma collect_formData_Inr:
  assumes "\<forall>x\<in>set [''name'', ''email'', ''phone'', ''message'']. control_with_id x es"
    and "getElementById ''inquiry'' es \<noteq> None"
  shows "\<exists>fd. collect_formData es = Inr fd"
proof -
  obtain n m p t where "trimmed_value_of_id ''name'' es = Inr n"
    and "trimmed_value_of_id ''email'' es = Inr m"
    and "trimmed_value_of_id ''phone'' es = Inr p"
    and "trimmed_value_of_id ''message'' es = Inr t"
    using assms(1) trimmed_value_of_id_control [of _ es] by (metis list.set_intros(1,2))
  moreover obtain q where "value_of_id ''inquiry'' es = Inr q"
    using assms(2) by (auto simp: value_of_id_def)
  ultimately show ?thesis
    by (simp add: collect_formData_def)
qed

text \<open>
  Without a string value under one of the four ids that are trimmed, or without an element
  of id \<open>inquiry\<close>, the handler throws before it reaches the send.
\<close>

lemma collect_formData_Inl:
  assumes "\<not> control_with_id x es" and "x \<in> set [''name'', ''email'', ''phone'', ''message'']"
  shows "collect_formData es = Inl TypeError"
proof -
  have x: "trimmed_value_of_id x es = Inl TypeError"
    using assms(1) by (rule trimmed_value_of_id_plain)
  have e: "\<And>y e. trimmed_value_of_id y es = Inl e \<Longrightarrow> e = TypeError"
    by (auto simp: trimmed_value_of_id_def value_of_id_def split: option.splits sum.splits)
  have q: "\<And>e. value_of_id ''inquiry'' es = Inl e \<Longrightarrow> e = TypeError"
    by (auto simp: value_of_id_def split: option.splits)
  show ?thesis
    using assms(2) x e q
    by (auto simp: collect_formData_def split: sum.splits)
qed

lemma sends_append [simp]: "sends (xs @ ys) = sends xs @ sends ys"
  by (induction xs rule: sends.induct) simp_all

lemma submit_handler_valid:
  assumes valid: "fst (validateForm es)"
    and button: "querySelector (\<lambda>e. in_form e \<and> submit_button e) es = Some b"
    and fd: "collect_formData es = Inr fd"
  shows "submit_handler service es =
    (let es1 = snd (validateForm es);
         es2 = setButtonLoading b True None es1;
         es3 = (if service = Resolves then form_reset (showFormResponse True success_message es2)
                else showFormResponse False failure_message es2);
         es4 = setButtonLoading b False (Some (innerHTML (es1 ! b))) es3
     in \<lparr>effects = [PreventDefault]
                @ (case service of
                     Resolves \<Rightarrow> [Send fd]
                   | Rejects \<Rightarrow> [Send fd, ConsoleError]
                   | Unavailable \<Rightarrow> [ConsoleError])
                @ (case getElementById ''formResponse'' es of
                     None \<Rightarrow> []
                   | Some r \<Rightarrow> [ScrollIntoView r, HideAfter r 5000]),
         dom = es4, thrown = None\<rparr>)"
proof -
  obtain es1 where v: "validateForm es = (True, es1)"
    using valid by (cases "validateForm es") simp
  have st1: "map static es1 = map static es"
    using validateForm_static [of es] v by simp
  have len1: "length es1 = length es"
    using validateForm_length [of es] v by simp
  have val1: "\<And>i. i < length es \<Longrightarrow> value (es1 ! i) = value (es ! i)"
    using validateForm_value [of _ es] v by simp
  have b1: "querySelector (\<lambda>e. in_form e \<and> submit_button e) es1 = Some b"
    using querySelector_static [OF st1, of "\<lambda>e. in_form e \<and> submit_button e"] button
    by (simp add: static_def)
  let ?es2 = "setButtonLoading b True None es1"
  have st2: "map static ?es2 = map static es"
    by (simp add: static_setButtonLoading st1)
  have "collect_formData ?es2 = collect_formData es"
    by (rule collect_formData_static [OF st2]) (simp add: value_setButtonLoading len1 val1)
  then have fd2: "collect_formData ?es2 = Inr fd"
    using fd by simp
  have r: "\<And>es3. map static es3 = map static es \<Longrightarrow>
      getElementById ''formResponse''
        (setButtonLoading b False (Some (innerHTML (es1 ! b))) es3)
      = getElementById ''formResponse'' es"
    by (rule getElementById_static) (simp add: static_setButtonLoading)
  show ?thesis
    by (simp add: submit_handler_def v b1 fd2 r static_form_reset static_showFormResponse st2)
qed

lemma submit_handler_valid_parts:
  assumes valid: "fst (validateForm es)"
    and button: "querySelector (\<lambda>e. in_form e \<and> submit_button e) es = Some b"
    and fd: "collect_formData es = Inr fd"
  shows "effects (submit_handler service es) =
           [PreventDefault]
             @ (case service of
                  Resolves \<Rightarrow> [Send fd]
                | Rejects \<Rightarrow> [Send fd, ConsoleError]
                | Unavailable \<Rightarrow> [ConsoleError])
             @ (case getElementById ''formResponse'' es of
                  None \<Rightarrow> [] | Some r \<Rightarrow> [ScrollIntoView r, HideAfter r 5000])"
    and "thrown (submit_handler service es) = None"
    and "service \<noteq> Resolves \<Longrightarrow> dom (submit_handler service es) =
           setButtonLoading b False (Some (innerHTML (snd (validateForm es) ! b)))
             (showFormResponse False failure_message
                (setButtonLoading b True None (snd (validateForm es))))"
  unfolding submit_handler_valid [OF assms] Let_def by simp_all

text \<open>A submission stopped by a TypeError while the data are collected sends nothing.\<close>

lemma submit_handler_throws:
  assumes valid: "fst (validateForm es)"
    and button: "querySelector (\<lambda>e. in_form e \<and> submit_button e) es = Some b"
    and fd: "collect_formData es = Inl e"
  shows "effects (submit_handler service es) = [PreventDefault]"
    and "thrown (submit_handler service es) = Some e"
proof -
  obtain es1 where v: "validateForm es = (True, es1)"
    using valid by (cases "validateForm es") simp
  have st1: "map static es1 = map static es"
    using validateForm_static [of es] v by simp
  have len1: "length es1 = length es"
    using validateForm_length [of es] v by simp
  have val1: "\<And>i. i < length es \<Longrightarrow> value (es1 ! i) = value (es ! i)"
    using validateForm_value [of _ es] v by simp
  have b1: "querySelector (\<lambda>e. in_form e \<and> submit_button e) es1 = Some b"
    using querySelector_static [OF st1, of "\<lambda>e. in_form e \<and> submit_button e"] button
    by (simp add: static_def)
  let ?es2 = "setButtonLoading b True None es1"
  have st2: "map static ?es2 = map static es"
    by (simp add: static_setButtonLoading st1)
  have "collect_formData ?es2 = collect_formData es"
    by (rule collect_formData_static [OF st2]) (simp add: value_setButtonLoading len1 val1)
  then have fd2: "collect_formData ?es2 = Inl e"
    using fd by simp
  show "effects (submit_handler service es) = [PreventDefault]"
    and "thrown (submit_handler service es) = Some e"
    by (simp_all add: submit_handler_def v b1 fd2)
qed

lemma showFormResponse_shown:
  assumes "getElementById ''formResponse'' es = Some r"
  shows "innerHTML (showFormResponse ok m es ! r) = response_html ok m"
    and "display (showFormResponse ok m es ! r) = ''block''"
  using assms getElementById_bound [OF assms] by (simp_all add: showFormResponse_def)

lemma setButtonLoading_other: "r \<noteq> b \<Longrightarrow> setButtonLoading b l t es ! r = es ! r"
  by (simp add: setButtonLoading_def)

lemma sends_handler:
  assumes "fst (validateForm es)"
    and "querySelector (\<lambda>e. in_form e \<and> submit_button e) es = Some b"
    and "collect_formData es = Inr fd"
  shows "sends (effects (submit_handler service es)) = (if service = Unavailable then [] else [fd])"
  unfolding submit_handler_valid_parts(1) [OF assms]
  by (cases service) (simp_all split: option.splits)

lemma failure_shown:
  assumes "fst (validateForm es)"
    and "querySelector (\<lambda>e. in_form e \<and> submit_button e) es = Some b"
    and "collect_formData es = Inr fd"
    and r: "getElementById ''formResponse'' es = Some r" and nb: "r \<noteq> b"
    and fails: "service \<noteq> Resolves"
  shows "innerHTML (dom (submit_handler service es) ! r) = response_html False failure_message"
    and "display (dom (submit_handler service es) ! r) = ''block''"
proof -
  let ?es2 = "setButtonLoading b True None (snd (validateForm es))"
  have "map static ?es2 = map static es"
    by (simp add: static_setButtonLoading validateForm_static)
  then have "getElementById ''formResponse'' ?es2 = Some r"
    using r by (simp only: getElementById_static [of ?es2 es])
  note sh = showFormResponse_shown [OF this, of False failure_message]
  have d: "dom (submit_handler service es) ! r = showFormResponse False failure_message ?es2 ! r"
    unfolding submit_handler_valid_parts(3) [OF assms(1-3) fails]
    using nb by (rule setButtonLoading_other)
  show "innerHTML (dom (submit_handler service es) ! r) = response_html False failure_message"
    unfolding d by (rule sh(1))
  show "display (dom (submit_handler service es) ! r) = ''block''"
    unfolding d by (rule sh(2))
qed

text \<open>
  The value under the id \<open>inquiry\<close> is not trimmed: when that id belongs to an element
  that is not a control, the handler does not throw and sends an undefined \<open>inquiry\<close>.
\<close>

lemma inquiry_without_value_is_sent:
  "sends (effects (submit_handler Resolves (contact_page[3 := plain_element ''inquiry'']))) =
     [\<lparr>name = js ''Ann'', email = js ''ann@example.org'', phone = [],
       inquiry = None, message = js ''Hello''\<rparr>]"
  by code_simp

text \<open>
  Claim C7 as stated covers every submission that passes validation. The handler reads
  the five fields by id and trims four of them without a check: on a page without an
  element of id \<open>phone\<close>, and on a page where that id belongs to an element that is not a
  control (\<open><div id="phone">\<close>), it throws a TypeError while it collects the data, and
  nothing is sent. When \<open>emailjs\<close> is not defined no call of \<open>emailjs.send\<close> is made. On a
  page without the \<open>formResponse\<close> container a send that fails is logged, and no element
  shows the failure message.
\<close>

theorem valid_submission_without_field_counterexample:
  "fst (validateForm (contact_page[2 := form_field ''tel'' False False []])) \<and>
   sends (effects (submit_handler Resolves (contact_page[2 := form_field ''tel'' False False []])))
     = [] \<and>
   thrown (submit_handler Resolves (contact_page[2 := form_field ''tel'' False False []]))
     = Some TypeError \<and>
   fst (validateForm (contact_page[2 := plain_element ''phone''])) \<and>
   getElementById ''phone'' (contact_page[2 := plain_element ''phone'']) = Some 2 \<and>
   sends (effects (submit_handler Resolves (contact_page[2 := plain_element ''phone''])))
     = [] \<and>
   thrown (submit_handler Resolves (contact_page[2 := plain_element ''phone'']))
     = Some TypeError \<and>
   fst (validateForm contact_page) \<and>
   effects (submit_handler Unavailable contact_page) =
     [PreventDefault, ConsoleError, ScrollIntoView 6, HideAfter 6 5000] \<and>
   fst (validateForm (butlast contact_page)) \<and>
   effects (submit_handler Rejects (butlast contact_page)) =
     [PreventDefault,
      Send \<lparr>name = js ''Ann'', email = js ''ann@example.org'', phone = [],
            inquiry = Some (js ''general''), message = js ''Hello''\<rparr>,
      ConsoleError] \<and>
   response_html False failure_message
     \<notin> set (map innerHTML (dom (submit_handler Rejects (butlast contact_page))))"
  by (intro conjI; code_simp)

text \<open>
  Claim C7, as amended. On a page that has the submit button of the form, a control (an
  element with a string value) under each of the ids \<open>name\<close>, \<open>email\<close>, \<open>phone\<close> and
  \<open>message\<close> and an element of id \<open>inquiry\<close>, and on which \<open>emailjs\<close> is defined, a submission
  that passes validation calls \<open>emailjs.send\<close> exactly once, with the collected data,
  whether the send succeeds or fails, and does not throw. When the send fails and the
  page has the \<open>formResponse\<close> container (an element other than the submit button), the
  container holds the failure message and is displayed.
\<close>

theorem valid_submission_sends_once:
  assumes "fst (validateForm es)"
    and "querySelector (\<lambda>e. in_form e \<and> submit_button e) es = Some b"
    and "\<forall>x\<in>set [''name'', ''email'', ''phone'', ''message'']. control_with_id x es"
    and "getElementById ''inquiry'' es \<noteq> None"
    and "service \<noteq> Unavailable"
  shows "(\<exists>fd. collect_formData es = Inr fd \<and>
               sends (effects (submit_handler service es)) = [fd]) \<and>
         thrown (submit_handler service es) = None \<and>
         (\<forall>r. getElementById ''formResponse'' es = Some r \<and> r \<noteq> b \<longrightarrow>
            innerHTML (dom (submit_handler Rejects es) ! r) = response_html False failure_message \<and>
            display (dom (submit_handler Rejects es) ! r) = ''block'')"
proof -
  obtain fd where fd: "collect_formData es = Inr fd"
    using collect_formData_Inr [OF assms(3,4)] by blast
  have "sends (effects (submit_handler service es)) = [fd]"
    using sends_handler [OF assms(1,2) fd, of service] assms(5) by simp
  moreover have "thrown (submit_handler service es) = None"
    by (rule submit_handler_valid_parts(2) [OF assms(1,2) fd])
  moreover have "innerHTML (dom (submit_handler Rejects es) ! r) = response_html False failure_message \<and>
           display (dom (submit_handler Rejects es) ! r) = ''block''"
    if "getElementById ''formResponse'' es = Some r" and "r \<noteq> b" for r
    using failure_shown [OF assms(1,2) fd that, of Rejects] by simp
  ultimately show ?thesis
    using fd by blast
qed

theorem valid_submission_sends_once_witness:
  "fst (validateForm contact_page) \<and>
   sends (effects (submit_handler Rejects contact_page)) =
     [\<lparr>name = js ''Ann'', email = js ''ann@example.org'', phone = [],
       inquiry = Some (js ''general''), message = js ''Hello''\<rparr>] \<and>
   thrown (submit_handler Rejects contact_page) = None \<and>
   innerHTML (dom (submit_handler Rejects contact_page) ! 6) = response_html False failure_message \<and>
   display (dom (submit_handler Rejects contact_page) ! 6) = ''block''"
proof -
  have v: "fst (validateForm contact_page)"
    by code_simp
  have b: "querySelector (\<lambda>e. in_form e \<and> submit_button e) contact_page = Some 5"
    by code_simp
  have f: "\<forall>x\<in>set [''name'', ''email'', ''phone'', ''message'']. control_with_id x contact_page"
    by code_simp
  have q: "getElementById ''inquiry'' contact_page \<noteq> None"
    by code_simp
  have r: "getElementById ''formResponse'' contact_page = Some 6"
    by code_simp
  have c: "collect_formData contact_page =
      Inr \<lparr>name = js ''Ann'', email = js ''ann@example.org'', phone = [],
       inquiry = Some (js ''general''), message = js ''Hello''\<rparr>"
    by code_simp
  from valid_submission_sends_once [OF v b f q, of Rejects] r c v show ?thesis
    by simp
qed

section \<open>Properties of the counters\<close>

lemma parseInt_range: "parseInt rnd s = NaN \<or> (\<exists>n::int. parseInt rnd s = rnd (of_int n))"
  unfolding parseInt_def Let_def
  by (simp split: prod.splits del: of_int_mult of_int_of_nat_eq) blast

lemma standard_model_pos:
  assumes "standard_model u rnd" and "1 / 400 \<le> x"
  shows "rnd x = PosInf \<or> (\<exists>y. rnd x = Num y \<and> \<bar>y - x\<bar> \<le> u * x)"
  using assms by (simp add: standard_model_def)

lemma standard_model_neg:
  assumes "standard_model u rnd" and "x \<le> 0"
  shows "rnd x = NegInf \<or> (\<exists>y. rnd x = Num y \<and> y \<le> 0)"
  using assms by (simp add: standard_model_def)

lemma target_cases:
  assumes sm: "standard_model u rnd" and u: "0 \<le> u" "u \<le> 1 / 400"
  shows "parseInt rnd s = NaN \<or> parseInt rnd s = NegInf \<or> parseInt rnd s = PosInf \<or>
         (\<exists>t. parseInt rnd s = Num t \<and> (t \<le> 0 \<or> 399 / 400 \<le> t))"
proof -
  consider "parseInt rnd s = NaN" | n :: int where "parseInt rnd s = rnd (of_int n)"
    using parseInt_range [of rnd s] by blast
  then show ?thesis
  proof cases
    case 1
    then show ?thesis by simp
  next
    case 2
    show ?thesis
    proof (cases "n \<le> 0")
      case True
      then have "(of_int n :: rat) \<le> 0" by simp
      from standard_model_neg [OF sm this] 2 show ?thesis by auto
    next
      case False
      then have n: "(1 :: rat) \<le> of_int n" by simp
      then have "1 / 400 \<le> (of_int n :: rat)" by simp
      from standard_model_pos [OF sm this]
      consider "rnd (of_int n) = PosInf"
        | y where "rnd (of_int n) = Num y" "\<bar>y - of_int n\<bar> \<le> u * of_int n"
        by blast
      then show ?thesis
      proof cases
        case 1
        then show ?thesis using 2 by simp
      next
        case 2
        have "u * of_int n \<le> (1 / 400) * of_int n"
          using u(2) n by (intro mult_right_mono) simp_all
        with 2(2) n have "399 / 400 \<le> y" by linarith
        with 2(1) \<open>parseInt rnd s = rnd (of_int n)\<close> show ?thesis by simp
      qed
    qed
  qed
qed

lemma animateCounter_not_below:
  assumes "\<not> js_lt (Num 0) target"
  shows "animateCounter rnd shown target speed =
           Some \<lparr>count = Num 0, innerText = target, frames = 1\<rparr>"
  unfolding animateCounter_def using assms by (subst updateCount.simps) simp

lemma animateCounter_PosInf:
  "animateCounter rnd shown PosInf (Num 200) =
     Some \<lparr>count = PosInf, innerText = PosInf, frames = 2\<rparr>"
  unfolding animateCounter_def
  by (subst updateCount.simps, simp, subst updateCount.simps, simp)

lemma updateCount_overflow:
  "updateCount rnd (Num t) increment \<lparr>count = PosInf, innerText = x, frames = n\<rparr> =
     Some \<lparr>count = PosInf, innerText = Num t, frames = Suc n\<rparr>"
  by (subst updateCount.simps) simp

lemma updateCount_terminates:
  assumes eps: "0 < \<epsilon>"
    and step: "\<And>c. 0 \<le> c \<Longrightarrow> c < t \<Longrightarrow>
                 rnd (c + i) = PosInf \<or> (\<exists>c'. rnd (c + i) = Num c' \<and> c + \<epsilon> \<le> c')"
    and c: "0 \<le> c"
  shows "\<exists>st. updateCount rnd (Num t) (Num i) \<lparr>count = Num c, innerText = x, frames = n\<rparr> = Some st
              \<and> innerText st = Num t"
  using c
proof (induction "nat \<lceil>(t - c) / \<epsilon>\<rceil>" arbitrary: c x n rule: less_induct)
  case less
  show ?case
  proof (cases "c < t")
    case False
    then show ?thesis
      by (subst updateCount.simps) simp
  next
    case True
    from step [OF less.prems True]
    consider "rnd (c + i) = PosInf" | c' where "rnd (c + i) = Num c'" "c + \<epsilon> \<le> c'"
      by blast
    then show ?thesis
    proof cases
      case 1
      then show ?thesis
        using True by (subst updateCount.simps) (simp add: updateCount_overflow)
    next
      case 2
      have pos: "0 < (t - c) / \<epsilon>"
        using True eps by simp
      have "(t - c') / \<epsilon> \<le> (t - c - \<epsilon>) / \<epsilon>"
        using 2(2) eps by (intro divide_right_mono) simp_all
      also have "\<dots> = (t - c) / \<epsilon> - 1"
        using eps by (simp add: diff_divide_distrib)
      finally have "(t - c') / \<epsilon> \<le> (t - c) / \<epsilon> - 1" .
      then have "\<lceil>(t - c') / \<epsilon>\<rceil> \<le> \<lceil>(t - c) / \<epsilon>\<rceil> - 1"
        by (metis ceiling_diff_one ceiling_mono)
      moreover have "0 < \<lceil>(t - c) / \<epsilon>\<rceil>"
        using pos by simp
      ultimately have m: "nat \<lceil>(t - c') / \<epsilon>\<rceil> < nat \<lceil>(t - c) / \<epsilon>\<rceil>"
        by linarith
      have "0 \<le> c'"
        using 2(2) less.prems eps by linarith
      from less.hyps [OF m this, of "js_ceil (Num c')" "Suc n"] 2(1) True show ?thesis
        by (subst updateCount.simps) simp
    qed
  qed
qed

lemma animateCounter_finite:
  assumes sm: "standard_model u rnd" and u: "0 \<le> u" "u \<le> 1 / 400"
    and t: "399 / 400 \<le> t"
  shows "\<exists>st. animateCounter rnd shown (Num t) (Num 200) = Some st \<and> innerText st = Num t"
proof -
  have "1 / 400 \<le> t / 200"
    using t by simp
  from standard_model_pos [OF sm this]
  consider "rnd (t / 200) = PosInf"
    | i where "rnd (t / 200) = Num i" "\<bar>i - t / 200\<bar> \<le> u * (t / 200)"
    by blast
  then show ?thesis
  proof cases
    case 1
    have "animateCounter rnd shown (Num t) (Num 200) =
            Some \<lparr>count = PosInf, innerText = Num t, frames = 2\<rparr>"
      unfolding animateCounter_def using 1 t
      by (subst updateCount.simps) (simp add: updateCount_overflow)
    then show ?thesis by simp
  next
    case 2
    have ut: "u * (t / 200) \<le> (1 / 400) * (t / 200)"
      using u(2) t by (intro mult_right_mono) simp_all
    with 2(2) have i: "(399 / 400) * (t / 200) \<le> i"
      by linarith
    have ipos: "0 < i"
      using i t by simp
    have step: "rnd (c + i) = PosInf \<or> (\<exists>c'. rnd (c + i) = Num c' \<and> c + t / 800 \<le> c')"
      if "0 \<le> c" and "c < t" for c
    proof -
      have "1 / 400 \<le> c + i"
        using that(1) i t by simp
      from standard_model_pos [OF sm this]
      consider "rnd (c + i) = PosInf"
        | c' where "rnd (c + i) = Num c'" "\<bar>c' - (c + i)\<bar> \<le> u * (c + i)"
        by blast
      then show ?thesis
      proof cases
        case 1
        then show ?thesis by simp
      next
        case 2
        have "u * (c + i) \<le> (1 / 400) * (c + i)"
          using u(2) that(1) ipos by (intro mult_right_mono) simp_all
        with 2(2) have "c + i - (c + i) / 400 \<le> c'"
          by linarith
        moreover have "399 * t / 80000 \<le> i"
          using i by simp
        ultimately have "c + t / 800 \<le> c'"
          using that(2) t by (simp add: field_simps)
        with 2(1) show ?thesis by simp
      qed
    qed
    have "0 < t / 800"
      using t by simp
    from updateCount_terminates [of "t / 800" t rnd i 0 shown 0, OF this step]
    show ?thesis
      unfolding animateCounter_def using 2(1) by simp
  qed
qed

text \<open>
  Whatever the rounding of the machine does to the increment \<open>target / 200\<close> and to the
  sums, as long as it follows the standard model with a unit roundoff of at most 1/400,
  the animation ends and the counter shows the target.
\<close>

lemma counter_animation_standard_model:
  assumes "standard_model u rnd" and "0 \<le> u" and "u \<le> 1 / 400"
  shows "\<exists>st. counter_in_view rnd shown data_count = Some st \<and>
              innerText st = counter_target rnd data_count"
proof -
  let ?T = "counter_target rnd data_count"
  have "?T = NaN \<or> ?T = NegInf \<or> ?T = PosInf \<or> (\<exists>t. ?T = Num t \<and> (t \<le> 0 \<or> 399 / 400 \<le> t))"
    unfolding counter_target_def by (rule target_cases [OF assms])
  then consider "\<not> js_lt (Num 0) ?T" | "?T = PosInf" | t where "?T = Num t" "399 / 400 \<le> t"
    by (auto simp: not_less)
  then show ?thesis
  proof cases
    case 1
    then show ?thesis
      by (simp add: counter_in_view_def animateCounter_not_below)
  next
    case 2
    then show ?thesis
      by (simp add: counter_in_view_def animateCounter_PosInf)
  next
    case 3
    from animateCounter_finite [OF assms 3(2), of shown] 3(1) show ?thesis
      by (simp add: counter_in_view_def)
  qed
qed

subsection \<open>Double precision follows the standard model\<close>

lemma round_half_even_error: "\<bar>of_int (round_half_even z) - z\<bar> \<le> 1 / 2"
proof -
  have "of_int \<lfloor>z\<rfloor> \<le> z" and "z < of_int \<lfloor>z\<rfloor> + 1"
    by linarith+
  then show ?thesis
    by (auto simp: round_half_even_def Let_def)
qed

lemma round_half_even_nonneg: "0 \<le> z \<Longrightarrow> 0 \<le> round_half_even z"
  by (auto simp: round_half_even_def Let_def)

lemma powi_nat: "0 \<le> k \<Longrightarrow> (2 :: rat) powi k = 2 ^ nat k"
  by (simp add: power_int_def)

lemma ilog2_lower:
  assumes "0 < x"
  shows "2 powi ilog2 x \<le> x"
proof -
  obtain p q where pq: "quotient_of x = (p, q)"
    by (cases "quotient_of x")
  have q: "0 < q"
    using pq by (rule quotient_of_denom_pos)
  have x: "x = of_int p / of_int q"
    using pq by (rule quotient_of_div)
  have p: "0 < p"
    using assms q unfolding x by (simp add: zero_less_divide_iff)
  let ?d = "bitlen p - bitlen q"
  show ?thesis
  proof (cases "2 powi ?d \<le> x")
    case True
    then show ?thesis
      by (simp add: ilog2_def pq)
  next
    case False
    have bp: "1 \<le> bitlen p" and bq: "1 \<le> bitlen q"
      using p q by (simp_all add: bitlen_alt_def)
    have "(2 :: int) ^ nat (bitlen p - 1) \<le> p"
      using bitlen_bounds [OF p] by simp
    then have "(of_int ((2 :: int) ^ nat (bitlen p - 1)) :: rat) \<le> of_int p"
      by (simp only: of_int_le_iff)
    then have lo: "(2 :: rat) powi (bitlen p - 1) \<le> of_int p"
      using bp by (simp add: powi_nat)
    have "q < 2 ^ nat (bitlen q)"
      using bitlen_bounds [OF q] by simp
    then have "(of_int q :: rat) < of_int ((2 :: int) ^ nat (bitlen q))"
      by (simp only: of_int_less_iff)
    then have hi: "of_int q \<le> (2 :: rat) powi bitlen q"
      using bq by (simp add: powi_nat)
    have "(2 :: rat) powi (?d - 1) = 2 powi (bitlen p - 1) / 2 powi bitlen q"
      by (simp add: power_int_diff)
    also have "\<dots> \<le> of_int p / 2 powi bitlen q"
      using lo by (intro divide_right_mono) simp_all
    also have "\<dots> \<le> of_int p / of_int q"
      using hi p q by (intro divide_left_mono) simp_all
    finally have "(2 :: rat) powi (?d - 1) \<le> of_int p / of_int q" .
    then have "2 powi (?d - 1) \<le> x"
      by (simp only: x)
    moreover have "ilog2 x = ?d - 1"
      using False by (simp add: ilog2_def pq)
    ultimately show ?thesis
      by simp
  qed
qed

lemma ilog2_upper:
  assumes "0 < x"
  shows "x < 2 powi (ilog2 x + 1)"
proof -
  obtain p q where pq: "quotient_of x = (p, q)"
    by (cases "quotient_of x")
  have q: "0 < q"
    using pq by (rule quotient_of_denom_pos)
  have x: "x = of_int p / of_int q"
    using pq by (rule quotient_of_div)
  have p: "0 < p"
    using assms q unfolding x by (simp add: zero_less_divide_iff)
  let ?d = "bitlen p - bitlen q"
  show ?thesis
  proof (cases "2 powi ?d \<le> x")
    case False
    then show ?thesis
      by (simp add: ilog2_def pq)
  next
    case True
    have bp: "1 \<le> bitlen p" and bq: "1 \<le> bitlen q"
      using p q by (simp_all add: bitlen_alt_def)
    have "p < 2 ^ nat (bitlen p)"
      using bitlen_bounds [OF p] by simp
    then have "(of_int p :: rat) < of_int ((2 :: int) ^ nat (bitlen p))"
      by (simp only: of_int_less_iff)
    then have hi: "of_int p < (2 :: rat) powi bitlen p"
      using bp by (simp add: powi_nat)
    have "(2 :: int) ^ nat (bitlen q - 1) \<le> q"
      using bitlen_bounds [OF q] by simp
    then have "(of_int ((2 :: int) ^ nat (bitlen q - 1)) :: rat) \<le> of_int q"
      by (simp only: of_int_le_iff)
    then have lo: "(2 :: rat) powi (bitlen q - 1) \<le> of_int q"
      using bq by (simp add: powi_nat)
    have "of_int p / of_int q < 2 powi bitlen p / (of_int q :: rat)"
      using hi q by (intro divide_strict_right_mono) simp_all
    also have "\<dots> \<le> 2 powi bitlen p / 2 powi (bitlen q - 1)"
      using lo q by (intro divide_left_mono) (simp_all add: zero_less_mult_iff)
    also have "\<dots> = 2 powi (?d + 1)"
      by (simp add: power_int_diff power_int_add)
    finally have "x < 2 powi (?d + 1)"
      by (simp only: x)
    moreover have "ilog2 x = ?d"
      using True by (simp add: ilog2_def pq)
    ultimately show ?thesis
      by simp
  qed
qed

text \<open>The double nearest to 1/10, and a tie that goes to the even significand.\<close>

lemma round_double_examples:
  "round_double (1 / 10) = Num (3602879701896397 / 2 ^ 55)"
  "round_double (2 ^ 53 + 1) = Num (2 ^ 53)"
  by code_simp+

lemma tiny_power: "(2 :: rat) powi (- 1022) \<le> 1 / 400"
proof -
  have "(400 :: rat) \<le> 2 ^ 9" by simp
  also have "\<dots> \<le> 2 ^ 1022" by (rule power_increasing) simp_all
  finally show ?thesis
    by (simp add: power_int_def field_simps)
qed

lemma round_positive_error:
  assumes "1 / 400 \<le> x" and "round_positive x = Some y"
  shows "\<bar>y - x\<bar> \<le> (1 / 2 ^ 53) * x"
proof -
  have x: "0 < x" using assms(1) by simp
  define e where "e = max (ilog2 x) (- 1022)"
  define ulp :: rat where "ulp = 2 powi (e - 52)"
  have ulp: "0 < ulp"
    by (simp add: ulp_def)
  have y: "y = of_int (round_half_even (x / ulp)) * ulp"
    using assms(2) by (simp add: round_positive_def Let_def e_def ulp_def split: if_splits)
  have "2 powi e \<le> x"
    unfolding e_def using ilog2_lower [OF x] tiny_power assms(1)
    by (cases "ilog2 x \<le> - 1022") (simp_all add: max_def)
  moreover have "ulp = 2 powi e / 2 ^ 52"
    by (simp add: ulp_def power_int_diff)
  ultimately have u: "ulp / 2 \<le> (1 / 2 ^ 53) * x"
    by simp
  have "y - x = (of_int (round_half_even (x / ulp)) - x / ulp) * ulp"
    using ulp by (simp add: y left_diff_distrib)
  then have "\<bar>y - x\<bar> = \<bar>of_int (round_half_even (x / ulp)) - x / ulp\<bar> * ulp"
    using ulp by (simp add: abs_mult)
  also have "\<dots> \<le> (1 / 2) * ulp"
    using round_half_even_error [of "x / ulp"] ulp by (intro mult_right_mono) simp_all
  finally show ?thesis
    using u by simp
qed

lemma round_positive_nonneg:
  assumes "0 < x" and "round_positive x = Some y"
  shows "0 \<le> y"
proof -
  define ulp :: rat where "ulp = 2 powi (max (ilog2 x) (- 1022) - 52)"
  have ulp: "0 < ulp"
    by (simp add: ulp_def)
  have "y = of_int (round_half_even (x / ulp)) * ulp"
    using assms(2) by (simp add: round_positive_def Let_def ulp_def split: if_splits)
  moreover have "0 \<le> round_half_even (x / ulp)"
    using assms(1) ulp by (intro round_half_even_nonneg) simp
  ultimately show ?thesis
    using ulp by simp
qed

lemma standard_model_round_double: "standard_model (1 / 2 ^ 53) round_double"
  unfolding standard_model_def
proof (intro conjI allI impI)
  fix x :: rat
  assume x: "1 / 400 \<le> x"
  then have "0 < x" by simp
  then show "round_double x = PosInf \<or> (\<exists>y. round_double x = Num y \<and> \<bar>y - x\<bar> \<le> 1 / 2 ^ 53 * x)"
    using round_positive_error [OF x]
    by (cases "round_positive x") (simp_all add: round_double_def)
next
  fix x :: rat
  assume x: "x \<le> 0"
  show "round_double x = NegInf \<or> (\<exists>y. round_double x = Num y \<and> y \<le> 0)"
  proof (cases "x = 0")
    case True
    then show ?thesis by (simp add: round_double_def)
  next
    case False
    then have "0 < - x" using x by simp
    from round_positive_nonneg [OF this] False x show ?thesis
      by (cases "round_positive (- x)") (simp_all add: round_double_def)
  qed
qed

lemma double_roundoff: "(1 :: rat) / 2 ^ 53 \<le> 1 / 400"
proof -
  have "(400 :: rat) \<le> 2 ^ 9" by simp
  also have "\<dots> \<le> 2 ^ 53" by (rule power_increasing) simp_all
  finally show ?thesis
    by (simp add: field_simps)
qed

text \<open>
  Claim C2. For every value of the \<open>data-count\<close> attribute of a counter (none, the empty
  string, digits, anything else), the animation that \<open>animateCounter\<close> starts ends after
  finitely many frames, and the counter then shows exactly the target that \<open>parseInt\<close>
  returned (NaN included), with the increment \<open>target / 200\<close> and every sum rounded to
  double precision.
\<close>

theorem counter_animation_ends_at_target:
  "\<exists>st. counter_in_view round_double shown data_count = Some st \<and>
        innerText st = counter_target round_double data_count"
  by (rule counter_animation_standard_model [OF standard_model_round_double _ double_roundoff])
     simp

text \<open>
  For a target of 7 the increment 7/200 is not a double; the sum of 200 rounded
  increments is not 7, and the counter ends at 7.
\<close>

theorem counter_animation_ends_at_target_witness:
  "js_div round_double (Num 7) (Num 200) \<noteq> Num (7 / 200) \<and>
   (\<exists>st. counter_in_view round_double (Num 0) (Some (js ''7'')) = Some st \<and>
         innerText st = Num 7)"
proof -
  have t: "counter_target round_double (Some (js ''7'')) = Num 7"
    by code_simp
  have d: "js_div round_double (Num 7) (Num 200) \<noteq> Num (7 / 200)"
    by code_simp
  from counter_animation_ends_at_target [of "Num 0" "Some (js ''7'')"] t d
  show ?thesis
    by simp
qed

section \<open>Properties of the site script and of the initialisation\<close>


lemma href_classes_remove:
  "href (xs[n := classes_remove c (xs ! n)] ! i) = href (xs ! i)"
  by (cases "n < length xs") (auto simp: nth_list_update classes_remove_def list_update_beyond)

lemma other_class_classes_remove:
  "c \<noteq> d \<Longrightarrow>
   (d \<in> set (classes (xs[n := classes_remove c (xs ! n)] ! i))) = (d \<in> set (classes (xs ! i)))"
  by (cases "n < length xs") (auto simp: nth_list_update classes_remove_def list_update_beyond)

lemma class_removed: "c \<notin> set (classes (classes_remove c e))"
  by (simp add: classes_remove_def)

lemma anchor_click_hash:
  assumes "href (nodes p ! this) = ''#''"
  shows "anchor_click select this p =
    (case navLinks p of
       None \<Rightarrow> \<lparr>page = p, defaultPrevented = True, raised = Some TypeError\<rparr>
     | Some n \<Rightarrow>
         \<lparr>page = p\<lparr>nodes := (nodes p)[n := classes_remove ''show'' (nodes p ! n)]\<rparr>,
          defaultPrevented = True, raised = None\<rparr>)"
proof (cases "navLinks p")
  case None
  then show ?thesis by (simp add: anchor_click_def)
next
  case (Some n)
  let ?q = "p\<lparr>nodes := (nodes p)[n := classes_remove ''show'' (nodes p ! n)]\<rparr>"
  have same: "classes_remove ''show'' (nodes p ! n) = nodes p ! n"
    if "''show'' \<notin> set (classes (nodes p ! n))"
    using that by (simp add: classes_remove_def)
  have h: "href (nodes ?q ! this) = ''#''"
    using assms by (simp add: href_classes_remove)
  show ?thesis
  proof (cases "''show'' \<in> set (classes (nodes p ! n))")
    case True
    then show ?thesis
      using Some h by (simp add: anchor_click_def Let_def)
  next
    case False
    then show ?thesis
      using Some assms same by (simp add: anchor_click_def Let_def)
  qed
qed

text \<open>
  Claim C10. A click on an anchor whose \<open>href\<close> is exactly \<open>#\<close> prevents the default
  action and takes the class \<open>show\<close> off the navigation menu (when the page has the menu,
  and then the handler ends without an exception); it does not scroll, and no element
  gains or loses the class \<open>active\<close>.
\<close>

theorem hash_anchor_click_only_closes_menu:
  assumes "href (nodes p ! this) = ''#''"
  shows "defaultPrevented (anchor_click select this p) \<and>
         scrolls (page (anchor_click select this p)) = scrolls p \<and>
         length (nodes (page (anchor_click select this p))) = length (nodes p) \<and>
         (\<forall>i<length (nodes p).
            (''active'' \<in> set (classes (nodes (page (anchor_click select this p)) ! i)))
              = (''active'' \<in> set (classes (nodes p ! i)))) \<and>
         (\<forall>n. navLinks p = Some n \<and> n < length (nodes p) \<longrightarrow>
            ''show'' \<notin> set (classes (nodes (page (anchor_click select this p)) ! n)) \<and>
            raised (anchor_click select this p) = None)"
  unfolding anchor_click_hash [OF assms]
  by (simp add: other_class_classes_remove class_removed split: option.splits)

theorem hash_anchor_click_only_closes_menu_witness:
  "href (nodes sample_site ! 1) = ''#'' \<and>
   defaultPrevented (anchor_click sample_select 1 sample_site) \<and>
   scrolls (page (anchor_click sample_select 1 sample_site)) = scrolls sample_site \<and>
   (''active'' \<in> set (classes (nodes (page (anchor_click sample_select 1 sample_site)) ! 2)))
     = (''active'' \<in> set (classes (nodes sample_site ! 2))) \<and>
   ''show'' \<notin> set (classes (nodes (page (anchor_click sample_select 1 sample_site)) ! 0)) \<and>
   raised (anchor_click sample_select 1 sample_site) = None"
proof -
  have h: "href (nodes sample_site ! 1) = ''#''"
    by (simp add: sample_site_def)
  have n: "navLinks sample_site = Some 0" "length (nodes sample_site) = 4"
    by (simp_all add: sample_site_def)
  from hash_anchor_click_only_closes_menu [OF h, of sample_select] h n show ?thesis
    by simp
qed

subsection \<open>Missing elements\<close>

lemma DOMContentLoaded_never_throws:
  "AOS_defined q \<Longrightarrow> snd (DOMContentLoaded q) = None"
  by (simp add: DOMContentLoaded_def)

lemma DOMContentLoaded_empty_page:
  "DOMContentLoaded empty_page =
     ([AOS_init, EmailJS_init, Lightbox_options, Anchor_listeners 0], None)"
  by (simp add: DOMContentLoaded_def empty_page_def initEmailJS_def initContactForm_def
        getElementById_def querySelector_def querySelectorAll_def initCounters_def
        initLightbox_def initSmoothScrolling_def initBackToTop_def initStickyHeader_def
        initMobileMenu_def initAnimations_def initTestimonialCarousel_def
        initHoverDropdowns_def)

lemma script_js_needs_menuToggle: "menuToggle p = None \<Longrightarrow> script_js p = ([], Some TypeError)"
  by (simp add: script_js_def)

lemma script_js_needs_closeModal:
  "menuToggle p \<noteq> None \<Longrightarrow> closeModal p = None \<Longrightarrow> snd (script_js p) = Some TypeError"
  by (auto simp: script_js_def)

text \<open>
  Claim C8 asks that a feature whose element is missing is skipped without an error. On a
  page without the element of id \<open>menuToggle\<close>, \<open>script.js\<close> throws a TypeError at its
  first call and registers no listener at all; without the element \<open>.close-modal\<close> it
  throws after the listeners of the menu and of the anchors, and the contact form and the
  scroll listener are never set up.
\<close>

theorem script_js_missing_element_throws:
  "script_js (sample_site\<lparr>menuToggle := None\<rparr>) = ([], Some TypeError) \<and>
   script_js (sample_site\<lparr>closeModal := None\<rparr>) =
     ([MenuToggleClick, AnchorClick 1, AnchorClick 2], Some TypeError)"
  by (simp add: script_js_def sample_site_def)


end
